theory Spec2Isabelle
  imports Complex_Main "HOL-Library.Multiset"
begin

section \<open>Data model\<close>

text \<open>
  The exceptions the modelled code can raise. \<open>IndexError\<close> is what Python raises when a
  list is indexed outside its range. \<open>RecursionError\<close> is what the interpreter raises when
  a call would take the call stack beyond the recursion limit; in Python it is a subclass
  of \<open>RuntimeError\<close>, raised by the interpreter and not by a \<open>raise\<close> of the source.
\<close>

datatype error = ValueError string | RuntimeError string | IndexError | RecursionError

text \<open>A grid coordinate \<open>(x, y)\<close>: column first, row second, as in the source.\<close>

type_synonym cell = "int \<times> int"

text \<open>\<open>_maze\<close>: a list of rows, indexed \<open>_maze[y][x]\<close>; \<open>True\<close> is a wall.\<close>

type_synonym maze = "bool list list"

subsection \<open>Python list indexing\<close>

text \<open>
  Python resolves an index \<open>i\<close> of a list of length \<open>n\<close>: \<open>0 \<le> i < n\<close> is the position itself,
  \<open>-n \<le> i < 0\<close> counts from the end, anything else raises IndexError.
\<close>

definition py_index :: "int \<Rightarrow> nat \<Rightarrow> nat option" where
  "py_index i n =
     (if 0 \<le> i \<and> i < int n then Some (nat i)
      else if i < 0 \<and> - int n \<le> i then Some (nat (int n + i))
      else None)"

definition cell_index :: "maze \<Rightarrow> int \<Rightarrow> int \<Rightarrow> (nat \<times> nat) option" where
  "cell_index m x y =
     (case py_index y (length m) of
        None \<Rightarrow> None
      | Some r \<Rightarrow>
          (case py_index x (length (m ! r)) of
             None \<Rightarrow> None
           | Some c \<Rightarrow> Some (r, c)))"

text \<open>\<open>self._maze[y][x]\<close>\<close>

definition maze_get :: "maze \<Rightarrow> int \<Rightarrow> int \<Rightarrow> error + bool" where
  "maze_get m x y =
     (case cell_index m x y of
        None \<Rightarrow> Inl IndexError
      | Some (r, c) \<Rightarrow> Inr (m ! r ! c))"

text \<open>\<open>self._maze[y][x] = v\<close>\<close>

definition maze_set :: "maze \<Rightarrow> int \<Rightarrow> int \<Rightarrow> bool \<Rightarrow> error + maze" where
  "maze_set m x y v =
     (case cell_index m x y of
        None \<Rightarrow> Inl IndexError
      | Some (r, c) \<Rightarrow> Inr (m[r := (m ! r)[c := v]]))"

subsection \<open>The pseudorandom generator\<close>

text \<open>
  The generator of Python's \<open>random\<close> module is not part of the repository. Its state is
  modelled as the stream of raw numbers it is going to produce: \<open>randbelow g n\<close> takes the
  next raw number, reduces it below \<open>n\<close>, and returns the rest of the stream. Every
  behaviour of a real generator is the behaviour of some stream, so a statement for all
  streams covers every seed and every earlier use of the generator.

  \<open>shuffle\<close> is the library's in-place Fisher-Yates shuffle:
  \<^verbatim>\<open>for i in reversed(range(1, len(x))): j = randbelow(i + 1); x[i], x[j] = x[j], x[i]\<close>
\<close>

type_synonym rng = "nat \<Rightarrow> nat"

definition randbelow :: "rng \<Rightarrow> nat \<Rightarrow> nat \<times> rng" where
  "randbelow g n = (g 0 mod n, \<lambda>i. g (Suc i))"

fun shuffle_loop :: "nat \<Rightarrow> 'a list \<Rightarrow> rng \<Rightarrow> 'a list \<times> rng" where
  "shuffle_loop 0 xs g = (xs, g)"
| "shuffle_loop (Suc k) xs g =
     (case randbelow g (Suc k + 1) of
        (j, g') \<Rightarrow> shuffle_loop k (xs[Suc k := xs ! j, j := xs ! Suc k]) g')"

definition shuffle :: "rng \<Rightarrow> 'a list \<Rightarrow> 'a list \<times> rng" where
  "shuffle g xs = shuffle_loop (length xs - 1) xs g"

subsection \<open>Appearances and the generator object\<close>

record cube_appearance =
  color :: "real \<times> real \<times> real"
  alpha :: real
  material :: string

text \<open>\<open>CubeAppearance.__init__\<close>; \<open>material or "default"\<close> replaces None and the empty string.\<close>

definition CubeAppearance ::
  "real \<times> real \<times> real \<Rightarrow> real \<Rightarrow> string option \<Rightarrow> error + cube_appearance" where
  "CubeAppearance col al mat =
     (case col of (r, g, b) \<Rightarrow>
        if \<not> (0 \<le> r \<and> r \<le> 1 \<and> 0 \<le> g \<and> g \<le> 1 \<and> 0 \<le> b \<and> b \<le> 1)
          then Inl (ValueError ''Color values must be between 0 and 1'')
        else if \<not> (0 \<le> al \<and> al \<le> 1)
          then Inl (ValueError ''Alpha must be between 0 and 1'')
        else Inr \<lparr>color = col, alpha = al,
                  material = (case mat of None \<Rightarrow> ''default''
                              | Some s \<Rightarrow> if s = [] then ''default'' else s)\<rparr>)"

text \<open>
  Python list objects are mutable and shared by reference. The lists of coordinates that
  leave the generator (the stored solution path and the copies handed to callers) live in
  a store: \<open>list_at\<close> gives the contents of the list object at an address, \<open>next_addr\<close> is
  the next unused address.
\<close>

record py_heap =
  list_at :: "nat \<Rightarrow> cell list"
  next_addr :: nat

definition new_list :: "cell list \<Rightarrow> py_heap \<Rightarrow> nat \<times> py_heap" where
  "new_list xs hp =
     (next_addr hp, \<lparr>list_at = (list_at hp)(next_addr hp := xs), next_addr = Suc (next_addr hp)\<rparr>)"

text \<open>Any in-place mutation of the list object at \<open>a\<close> leaves some new contents \<open>xs\<close> there.\<close>

definition mutate_list :: "nat \<Rightarrow> cell list \<Rightarrow> py_heap \<Rightarrow> py_heap" where
  "mutate_list a xs hp = hp\<lparr>list_at := (list_at hp)(a := xs)\<rparr>"

text \<open>
  The fields of a \<open>MazeGenerator\<close>; \<open>u_maze\<close> and \<open>u_solution_path\<close> are the source's
  \<open>_maze\<close> and \<open>_solution_path\<close>, the latter a reference to a list object.
\<close>

record maze_generator =
  width :: int
  height :: int
  wall_appearance :: cube_appearance
  path_appearance :: "cube_appearance option"
  solution_appearance :: cube_appearance
  u_maze :: maze
  u_solution_path :: nat

text \<open>\<open>[[True for _ in range(width)] for _ in range(height)]\<close>\<close>

definition all_walls :: "int \<Rightarrow> int \<Rightarrow> maze" where
  "all_walls w h = replicate (nat h) (replicate (nat w) True)"

text \<open>\<open>a or CubeAppearance(color=c)\<close>: an appearance object is always truthy.\<close>

definition appearance_or ::
  "cube_appearance option \<Rightarrow> real \<times> real \<times> real \<Rightarrow> error + cube_appearance" where
  "appearance_or a c = (case a of Some v \<Rightarrow> Inr v | None \<Rightarrow> CubeAppearance c 1 None)"

text \<open>\<open>MazeGenerator.__init__\<close>\<close>

definition MazeGenerator ::
  "int \<Rightarrow> int \<Rightarrow> cube_appearance option \<Rightarrow> cube_appearance option \<Rightarrow>
   cube_appearance option \<Rightarrow> py_heap \<Rightarrow> error + py_heap \<times> maze_generator" where
  "MazeGenerator w h wall_app path_app sol_app hp =
     (if w < 3 \<or> h < 3 then Inl (ValueError ''Maze dimensions must be at least 3x3'')
      else if w mod 2 = 0 \<or> h mod 2 = 0
        then Inl (ValueError ''Maze dimensions must be odd numbers'')
      else
        (case appearance_or wall_app (0.8, 0.8, 0.8) of
           Inl e \<Rightarrow> Inl e
         | Inr wa \<Rightarrow>
             (case appearance_or sol_app (1.0, 1.0, 0.0) of
                Inl e \<Rightarrow> Inl e
              | Inr sa \<Rightarrow>
                  (case new_list [] hp of
                     (a, hp') \<Rightarrow>
                       Inr (hp',
                            \<lparr>width = w, height = h, wall_appearance = wa,
                             path_appearance = path_app, solution_appearance = sa,
                             u_maze = all_walls w h,
                             u_solution_path = a\<rparr>)))))"

section \<open>The carver\<close>

definition directions :: "(int \<times> int) list" where
  "directions = [(0, -2), (2, 0), (0, 2), (-2, 0)]"

text \<open>
  \<open>_carve_path\<close>; \<open>carve_loop\<close> is its \<open>for dx, dy in directions\<close> loop over the directions
  still to try. The state is the wall field and the generator.

  \<open>_carve_path\<close> calls itself from inside the loop, and the interpreter bounds the depth
  of the call stack. The first argument \<open>frames\<close> is the number of nested activations of
  \<open>_carve_path\<close> that the recursion limit still leaves room for: an activation that does
  not fit (with the calls of the library it makes) raises \<open>RecursionError\<close>, and the
  activations it starts have one frame less. At the call in \<open>generate\<close> this number
  depends on the limit in force (1000 unless changed) and on the depth of the caller; it
  is a parameter of the model. An error ends the carve; the wall field that a carve leaves
  behind when it raises is not part of the result.
\<close>

fun carve_path :: "nat \<Rightarrow> int \<Rightarrow> int \<Rightarrow> maze \<times> rng \<Rightarrow> int \<Rightarrow> int \<Rightarrow> error + maze \<times> rng"
  and carve_loop ::
    "nat \<Rightarrow> int \<Rightarrow> int \<Rightarrow> maze \<times> rng \<Rightarrow> int \<Rightarrow> int \<Rightarrow> (int \<times> int) list \<Rightarrow> error + maze \<times> rng"
where
  "carve_path 0 w h (m, g) x y = Inl RecursionError"
| "carve_path (Suc frames) w h (m, g) x y =
     (case maze_set m x y False of
        Inl e \<Rightarrow> Inl e
      | Inr m1 \<Rightarrow>
          (case shuffle g directions of
             (ds, g1) \<Rightarrow> carve_loop frames w h (m1, g1) x y ds))"
| "carve_loop frames w h (m, g) x y [] = Inr (m, g)"
| "carve_loop frames w h (m, g) x y ((dx, dy) # ds) =
     (let nx = x + dx; ny = y + dy in
      if 0 \<le> nx \<and> nx < w \<and> 0 \<le> ny \<and> ny < h then
        (case maze_get m nx ny of
           Inl e \<Rightarrow> Inl e
         | Inr wall \<Rightarrow>
             if wall then
               (case maze_set m (x + dx div 2) (y + dy div 2) False of
                  Inl e \<Rightarrow> Inl e
                | Inr m1 \<Rightarrow>
                    (case carve_path frames w h (m1, g) nx ny of
                       Inl e \<Rightarrow> Inl e
                     | Inr s \<Rightarrow> carve_loop frames w h s x y ds))
             else carve_loop frames w h (m, g) x y ds)
      else carve_loop frames w h (m, g) x y ds)"

section \<open>The solver\<close>

text \<open>
  The body of the \<open>for dx, dy in [...]\<close> loop of \<open>_find_solution\<close>, for the directions still
  to try from the cell \<open>(x, y)\<close> reached by \<open>path\<close>.
\<close>

fun explore ::
  "int \<Rightarrow> int \<Rightarrow> maze \<Rightarrow> cell \<Rightarrow> cell list \<Rightarrow> (int \<times> int) list \<Rightarrow>
   (cell \<times> cell list) list \<times> cell set \<Rightarrow> error + (cell \<times> cell list) list \<times> cell set" where
  "explore w h m (x, y) path [] (queue, visited) = Inr (queue, visited)"
| "explore w h m (x, y) path ((dx, dy) # ds) (queue, visited) =
     (let nx = x + dx; ny = y + dy in
      if 0 \<le> nx \<and> nx < w \<and> 0 \<le> ny \<and> ny < h then
        (case maze_get m nx ny of
           Inl e \<Rightarrow> Inl e
         | Inr wall \<Rightarrow>
             if \<not> wall \<and> (nx, ny) \<notin> visited then
               explore w h m (x, y) path ds
                 (queue @ [((nx, ny), path @ [(nx, ny)])], insert (nx, ny) visited)
             else explore w h m (x, y) path ds (queue, visited))
      else explore w h m (x, y) path ds (queue, visited))"

text \<open>The cells of a \<open>w\<close> by \<open>h\<close> grid.\<close>

definition grid_cells :: "int \<Rightarrow> int \<Rightarrow> cell set" where
  "grid_cells w h = {0..<w} \<times> {0..<h}"

lemma finite_grid_cells: "finite (grid_cells w h)"
  by (simp add: grid_cells_def)

lemma card_grid_insert:
  assumes "n \<in> grid_cells w h" "n \<notin> v"
  shows "card (grid_cells w h - insert n v) < card (grid_cells w h - v)"
proof (rule psubset_card_mono)
  show "finite (grid_cells w h - v)" using finite_grid_cells by blast
  show "grid_cells w h - insert n v \<subset> grid_cells w h - v" using assms by blast
qed

lemma explore_measure:
  "explore w h m c path ds (q, v) = Inr (q', v') \<Longrightarrow>
   2 * card (grid_cells w h - v') + length q' \<le> 2 * card (grid_cells w h - v) + length q"
proof (induction ds arbitrary: q v)
  case Nil
  then show ?case by (cases c) simp
next
  case (Cons d ds)
  obtain x y where c: "c = (x, y)" by (cases c)
  obtain dx dy where d: "d = (dx, dy)" by (cases d)
  let ?n = "(x + dx, y + dy)"
  let ?inb = "0 \<le> x + dx \<and> x + dx < w \<and> 0 \<le> y + dy \<and> y + dy < h"
  show ?case
  proof (cases "?inb \<and> maze_get m (x + dx) (y + dy) = Inr False \<and> ?n \<notin> v")
    case False
    have "explore w h m c path ds (q, v) = Inr (q', v')"
    proof (cases ?inb)
      case nb: False
      with Cons.prems show ?thesis unfolding c d by (simp add: Let_def)
    next
      case ib: True
      with Cons.prems False show ?thesis unfolding c d
        by (cases "maze_get m (x + dx) (y + dy)") (auto simp: Let_def split: if_splits)
    qed
    then show ?thesis by (rule Cons.IH)
  next
    case True
    with Cons.prems have
      "explore w h m c path ds (q @ [(?n, path @ [?n])], insert ?n v) = Inr (q', v')"
      unfolding c d by (simp add: Let_def)
    then have "2 * card (grid_cells w h - v') + length q'
           \<le> 2 * card (grid_cells w h - insert ?n v) + length (q @ [(?n, path @ [?n])])"
      by (rule Cons.IH)
    moreover have "?n \<in> grid_cells w h" "?n \<notin> v"
      using True by (simp_all add: grid_cells_def)
    then have "card (grid_cells w h - insert ?n v) < card (grid_cells w h - v)"
      by (rule card_grid_insert)
    ultimately show ?thesis by simp
  qed
qed

text \<open>
  The \<open>while queue\<close> loop of \<open>_find_solution\<close>. The order in which the neighbours are tried
  is a parameter here, so that a statement can range over it; the source's order is
  \<open>solver_directions\<close>.
\<close>

function bfs_loop ::
  "(int \<times> int) list \<Rightarrow> int \<Rightarrow> int \<Rightarrow> maze \<Rightarrow> (cell \<times> cell list) list \<Rightarrow> cell set \<Rightarrow>
   error + cell list" where
  "bfs_loop dirs w h m [] visited =
     Inl (RuntimeError ''No solution path found - maze generation failed'')"
| "bfs_loop dirs w h m ((c, path) # queue) visited =
     (if c = (w - 2, h - 1) then Inr path
      else
        (case explore w h m c path dirs (queue, visited) of
           Inl e \<Rightarrow> Inl e
         | Inr (queue', visited') \<Rightarrow> bfs_loop dirs w h m queue' visited'))"
  by pat_completeness auto
termination
proof (relation "measure (\<lambda>(dirs, w, h, m, queue, visited).
    2 * card (grid_cells w h - visited) + length queue)", goal_cases)
  case 1
  show ?case by simp
next
  case (2 dirs w h m c path queue visited x2 queue' visited')
  then show ?case using explore_measure[of w h m c path dirs queue visited queue' visited']
    by auto
qed

definition solver_directions :: "(int \<times> int) list" where
  "solver_directions = [(0, -1), (1, 0), (0, 1), (-1, 0)]"

definition find_solution_with :: "(int \<times> int) list \<Rightarrow> int \<Rightarrow> int \<Rightarrow> maze \<Rightarrow> error + cell list" where
  "find_solution_with dirs w h m = bfs_loop dirs w h m [((1, 0), [(1, 0)])] {(1, 0)}"

text \<open>\<open>_find_solution\<close>\<close>

definition find_solution :: "int \<Rightarrow> int \<Rightarrow> maze \<Rightarrow> error + cell list" where
  "find_solution w h m = find_solution_with solver_directions w h m"

section \<open>Generation and the accessors\<close>

text \<open>
  The wall field after the first half of \<open>generate\<close>: the reset to all walls and the
  recursive carve from \<open>(1, 1)\<close>, before the entry and the exit are opened.
\<close>

definition carve_field :: "nat \<Rightarrow> int \<Rightarrow> int \<Rightarrow> rng \<Rightarrow> error + maze" where
  "carve_field frames w h g =
     (case carve_path frames w h (all_walls w h, g) 1 1 of
        Inl e \<Rightarrow> Inl e
      | Inr (m, g') \<Rightarrow> Inr m)"

text \<open>
  \<open>generate\<close>. \<open>random.seed(seed)\<close> replaces the state of the generator by one that depends
  on the seed only; the function from seeds to states belongs to Python's library and is
  the parameter \<open>seeded\<close>. Without a seed the generator continues from its current state.
  \<open>frames\<close> is the room that the recursion limit leaves for \<open>_carve_path\<close> at this call.
\<close>

definition generate ::
  "nat \<Rightarrow> (int \<Rightarrow> rng) \<Rightarrow> int option \<Rightarrow> rng \<Rightarrow> py_heap \<Rightarrow> maze_generator \<Rightarrow>
   error + rng \<times> py_heap \<times> maze_generator" where
  "generate frames seeded seed g hp self =
     (let g0 = (case seed of None \<Rightarrow> g | Some s \<Rightarrow> seeded s);
          m0 = all_walls (width self) (height self)
      in case carve_path frames (width self) (height self) (m0, g0) 1 1 of
           Inl e \<Rightarrow> Inl e
         | Inr (m1, g1) \<Rightarrow>
             (case maze_set m1 1 0 False of
                Inl e \<Rightarrow> Inl e
              | Inr m2 \<Rightarrow>
                  (case maze_set m2 (width self - 2) (height self - 1) False of
                     Inl e \<Rightarrow> Inl e
                   | Inr m3 \<Rightarrow>
                       (case find_solution (width self) (height self) m3 of
                          Inl e \<Rightarrow> Inl e
                        | Inr p \<Rightarrow>
                            (case new_list p hp of
                               (a, hp') \<Rightarrow>
                                 Inr (g1, hp', self\<lparr>u_maze := m3, u_solution_path := a\<rparr>))))))"

text \<open>\<open>get_solution_path\<close>: \<open>self._solution_path.copy()\<close> makes a new list object.\<close>

definition get_solution_path ::
  "py_heap \<Rightarrow> maze_generator \<Rightarrow> nat \<times> py_heap \<times> maze_generator" where
  "get_solution_path hp self =
     (case new_list (list_at hp (u_solution_path self)) hp of (a, hp') \<Rightarrow> (a, hp', self))"

text \<open>The contents of the list that a call of \<open>get_solution_path\<close> returns.\<close>

definition returned_path :: "py_heap \<Rightarrow> maze_generator \<Rightarrow> cell list" where
  "returned_path hp self = (case get_solution_path hp self of (a, hp', self') \<Rightarrow> list_at hp' a)"

section \<open>The cube grid\<close>

text \<open>
  \<open>CubeGrid\<close>: the numpy array \<open>_grid\<close> is read and written only at positions that
  \<open>_is_valid_position\<close> has accepted, and is modelled as a function from positions;
  \<open>_appearances\<close> is the dictionary from positions to appearances. A method returns its
  result, or the error it raises, together with the grid it leaves. \<open>str_position\<close> is
  Python's text for a tuple of three integers, used in the error message.

  \<open>np.zeros\<close> belongs to numpy. It refuses some dimensions (for instance with a
  ValueError when a dimension does not fit the index type of the platform); which ones is
  the parameter \<open>np_zeros\<close> of the constructor: the error raised for the given dimensions,
  or \<open>None\<close> when the array is created.
\<close>

type_synonym position = "int \<times> int \<times> int"

definition digit :: "nat \<Rightarrow> char" where
  "digit d = ''0123456789'' ! d"

function str_nat :: "nat \<Rightarrow> string" where
  "str_nat n =
     (if n < 10 then [digit n]
      else str_nat (n div 10) @ [digit (n mod 10)])"
  by pat_completeness auto
termination
  by (relation "measure (\<lambda>n. n)") auto

definition str_int :: "int \<Rightarrow> string" where
  "str_int i = (if i < 0 then ''-'' @ str_nat (nat (- i)) else str_nat (nat i))"

definition str_position :: "position \<Rightarrow> string" where
  "str_position p =
     (case p of (x, y, z) \<Rightarrow>
        ''('' @ str_int x @ '', '' @ str_int y @ '', '' @ str_int z @ '')'')"

record cube_grid =
  dimensions :: position
  u_grid :: "position \<Rightarrow> bool"
  u_appearances :: "position \<rightharpoonup> cube_appearance"
  u_default_appearance :: cube_appearance

definition CubeGrid :: "(position \<Rightarrow> error option) \<Rightarrow> position \<Rightarrow> error + cube_grid" where
  "CubeGrid np_zeros dims =
     (case dims of (dx, dy, dz) \<Rightarrow>
        if \<not> (dx > 0 \<and> dy > 0 \<and> dz > 0)
          then Inl (ValueError ''All dimensions must be positive'')
        else
          (case np_zeros dims of
             Some e \<Rightarrow> Inl e
           | None \<Rightarrow>
               (case CubeAppearance (0.5, 0.5, 0.5) 1 None of
                  Inl e \<Rightarrow> Inl e
                | Inr a \<Rightarrow>
                    Inr \<lparr>dimensions = dims, u_grid = (\<lambda>p. False), u_appearances = Map.empty,
                         u_default_appearance = a\<rparr>)))"

definition is_valid_position :: "cube_grid \<Rightarrow> position \<Rightarrow> bool" where
  "is_valid_position grid p =
     (case (p, dimensions grid) of
        ((x, y, z), (d0, d1, d2)) \<Rightarrow>
          0 \<le> x \<and> x < d0 \<and> 0 \<le> y \<and> y < d1 \<and> 0 \<le> z \<and> z < d2)"

definition bounds_error :: "cube_grid \<Rightarrow> position \<Rightarrow> error" where
  "bounds_error grid p =
     ValueError (''Position '' @ str_position p @ '' is outside grid bounds ''
                 @ str_position (dimensions grid))"

definition set_cube ::
  "cube_grid \<Rightarrow> position \<Rightarrow> bool \<Rightarrow> cube_appearance option \<Rightarrow> (error + unit) \<times> cube_grid" where
  "set_cube grid p occupied appearance =
     (if \<not> is_valid_position grid p then (Inl (bounds_error grid p), grid)
      else
        (let grid1 = grid\<lparr>u_grid := (u_grid grid)(p := occupied)\<rparr> in
         case appearance of
           Some a \<Rightarrow>
             if occupied then (Inr (), grid1\<lparr>u_appearances := (u_appearances grid1)(p \<mapsto> a)\<rparr>)
             else if p \<in> dom (u_appearances grid1)
               then (Inr (), grid1\<lparr>u_appearances := (u_appearances grid1)(p := None)\<rparr>)
             else (Inr (), grid1)
         | None \<Rightarrow>
             if \<not> occupied \<and> p \<in> dom (u_appearances grid1)
               then (Inr (), grid1\<lparr>u_appearances := (u_appearances grid1)(p := None)\<rparr>)
             else (Inr (), grid1)))"

definition get_cube :: "cube_grid \<Rightarrow> position \<Rightarrow> (error + bool) \<times> cube_grid" where
  "get_cube grid p =
     (if \<not> is_valid_position grid p then (Inl (bounds_error grid p), grid)
      else (Inr (u_grid grid p), grid))"

definition get_appearance :: "cube_grid \<Rightarrow> position \<Rightarrow> (error + cube_appearance) \<times> cube_grid" where
  "get_appearance grid p =
     (case u_appearances grid p of
        Some a \<Rightarrow> (Inr a, grid)
      | None \<Rightarrow> (Inr (u_default_appearance grid), grid))"

section \<open>Projection and printing\<close>

text \<open>
  \<open>to_cube_grid\<close>: the double loop visits the cells row by row; \<open>place_cubes\<close> is its
  body over the cells still to visit. An appearance object is always truthy, so the test
  \<open>and self.solution_appearance\<close> is always passed, and \<open>self.path_appearance\<close> is
  tested by being present.
\<close>

definition grid_order :: "int \<Rightarrow> int \<Rightarrow> cell list" where
  "grid_order w h = concat (map (\<lambda>y. map (\<lambda>x. (x, y)) [0..w - 1]) [0..h - 1])"

definition place :: "cube_grid \<Rightarrow> cell \<Rightarrow> cube_appearance \<Rightarrow> error + cube_grid" where
  "place grid c a =
     (case set_cube grid (fst c, 0, snd c) True (Some a) of
        (Inl e, grid') \<Rightarrow> Inl e
      | (Inr u, grid') \<Rightarrow> Inr grid')"

fun place_cubes :: "maze_generator \<Rightarrow> cell set \<Rightarrow> cell list \<Rightarrow> cube_grid \<Rightarrow> error + cube_grid" where
  "place_cubes self solution_set [] grid = Inr grid"
| "place_cubes self solution_set ((x, y) # cs) grid =
     (case maze_get (u_maze self) x y of
        Inl e \<Rightarrow> Inl e
      | Inr wall \<Rightarrow>
          if wall then
            (case place grid (x, y) (wall_appearance self) of
               Inl e \<Rightarrow> Inl e
             | Inr grid' \<Rightarrow> place_cubes self solution_set cs grid')
          else if (x, y) \<in> solution_set then
            (case place grid (x, y) (solution_appearance self) of
               Inl e \<Rightarrow> Inl e
             | Inr grid' \<Rightarrow> place_cubes self solution_set cs grid')
          else
            (case path_appearance self of
               Some pa \<Rightarrow>
                 (case place grid (x, y) pa of
                    Inl e \<Rightarrow> Inl e
                  | Inr grid' \<Rightarrow> place_cubes self solution_set cs grid')
             | None \<Rightarrow> place_cubes self solution_set cs grid))"

definition to_cube_grid ::
  "(position \<Rightarrow> error option) \<Rightarrow> py_heap \<Rightarrow> maze_generator \<Rightarrow> bool \<Rightarrow>
   (error + cube_grid) \<times> py_heap \<times> maze_generator" where
  "to_cube_grid np_zeros hp self include_solution =
     (case CubeGrid np_zeros (width self, 1, height self) of
        Inl e \<Rightarrow> (Inl e, hp, self)
      | Inr grid \<Rightarrow>
          (let solution_set =
                 (if include_solution then set (list_at hp (u_solution_path self)) else {})
           in (place_cubes self solution_set (grid_order (width self) (height self)) grid,
               hp, self)))"

text \<open>
  \<open>print_maze\<close>: the result is the list of the rows printed. \<open>wall_glyph\<close> is the string
  literal of the source for a wall, as its bytes.
\<close>

definition wall_glyph :: string where
  "wall_glyph = [CHR 0xC3, CHR 0xA2, CHR 0xE2, CHR 0x80, CHR 0x93, CHR 0xCB, CHR 0x86]"

fun print_row :: "maze \<Rightarrow> cell set \<Rightarrow> int \<Rightarrow> int list \<Rightarrow> error + string" where
  "print_row m solution_set y [] = Inr []"
| "print_row m solution_set y (x # xs) =
     (if (x, y) \<in> solution_set then
        (case print_row m solution_set y xs of
           Inl e \<Rightarrow> Inl e
         | Inr row \<Rightarrow> Inr (''o'' @ row))
      else
        (case maze_get m x y of
           Inl e \<Rightarrow> Inl e
         | Inr wall \<Rightarrow>
             (case print_row m solution_set y xs of
                Inl e \<Rightarrow> Inl e
              | Inr row \<Rightarrow> Inr ((if wall then wall_glyph else '' '') @ row))))"

fun print_rows :: "maze \<Rightarrow> cell set \<Rightarrow> int list \<Rightarrow> int list \<Rightarrow> error + string list" where
  "print_rows m solution_set xs [] = Inr []"
| "print_rows m solution_set xs (y # ys) =
     (case print_row m solution_set y xs of
        Inl e \<Rightarrow> Inl e
      | Inr row \<Rightarrow>
          (case print_rows m solution_set xs ys of
             Inl e \<Rightarrow> Inl e
           | Inr rows \<Rightarrow> Inr (row # rows)))"

definition print_maze ::
  "py_heap \<Rightarrow> maze_generator \<Rightarrow> bool \<Rightarrow> (error + string list) \<times> py_heap \<times> maze_generator" where
  "print_maze hp self show_solution =
     (let solution_set =
            (if show_solution then set (list_at hp (u_solution_path self)) else {})
      in (print_rows (u_maze self) solution_set [0..width self - 1] [0..height self - 1],
          hp, self))"

section \<open>Vocabulary of the properties\<close>

text \<open>
  The statements below speak about the wall field through the set of its open cells, and
  about paths as lists of cells. \<open>wf_maze w h m\<close> says that \<open>m\<close> has \<open>h\<close> rows of \<open>w\<close>
  cells; \<open>opened m\<close> is the set of coordinates at which \<open>m\<close> holds \<open>False\<close>.
\<close>

definition wf_maze :: "int \<Rightarrow> int \<Rightarrow> maze \<Rightarrow> bool" where
  "wf_maze w h m \<longleftrightarrow> length m = nat h \<and> (\<forall>row \<in> set m. length row = nat w)"

definition opened :: "maze \<Rightarrow> cell set" where
  "opened m = {(x, y). 0 \<le> x \<and> 0 \<le> y \<and> nat y < length m \<and> nat x < length (m ! nat y)
                 \<and> \<not> m ! nat y ! nat x}"

text \<open>
  One descent of the carver seen on the set of open cells: from an open room \<open>(x, y)\<close> it
  opens the cell between and the room two steps away, which was closed and lies in the
  grid. \<open>rooms_closed w h S R\<close> says that from every room of \<open>R\<close> each room two steps away
  inside the grid is in \<open>S\<close>.
\<close>

definition grow_step :: "int \<Rightarrow> int \<Rightarrow> cell set \<Rightarrow> cell set \<Rightarrow> bool" where
  "grow_step w h S T \<longleftrightarrow>
     (\<exists>x y dx dy. (x, y) \<in> S \<and> odd x \<and> odd y \<and> (dx, dy) \<in> set directions
        \<and> (x + dx, y + dy) \<in> grid_cells w h \<and> (x + dx, y + dy) \<notin> S
        \<and> T = insert (x + dx, y + dy) (insert (x + dx div 2, y + dy div 2) S))"

definition rooms_closed :: "int \<Rightarrow> int \<Rightarrow> cell set \<Rightarrow> cell set \<Rightarrow> bool" where
  "rooms_closed w h S R \<longleftrightarrow>
     (\<forall>(x, y) \<in> R. odd x \<and> odd y \<longrightarrow>
        (\<forall>(dx, dy) \<in> set directions. (x + dx, y + dy) \<in> grid_cells w h \<longrightarrow> (x + dx, y + dy) \<in> S))"

text \<open>
  Two cells are adjacent when their Manhattan distance is 1. A simple path from \<open>u\<close> to
  \<open>v\<close> in \<open>S\<close> is a list of cells of \<open>S\<close> without repetition that starts at \<open>u\<close>, ends at
  \<open>v\<close> and moves between adjacent cells. A set of cells is a tree when it is built from
  one cell by adding cells that are adjacent to exactly one cell already present.
\<close>

definition adjacent :: "cell \<Rightarrow> cell \<Rightarrow> bool" where
  "adjacent a b \<longleftrightarrow> \<bar>fst a - fst b\<bar> + \<bar>snd a - snd b\<bar> = 1"

definition simple_path :: "cell set \<Rightarrow> cell \<Rightarrow> cell list \<Rightarrow> cell \<Rightarrow> bool" where
  "simple_path S u p v \<longleftrightarrow>
     p \<noteq> [] \<and> hd p = u \<and> last p = v \<and> set p \<subseteq> S \<and> successively adjacent p \<and> distinct p"

inductive tree_set :: "cell set \<Rightarrow> bool" where
  single: "tree_set {c}"
| leaf: "tree_set S \<Longrightarrow> c \<notin> S \<Longrightarrow> n \<in> S \<Longrightarrow> adjacent c n \<Longrightarrow>
         (\<forall>n' \<in> S. adjacent c n' \<longrightarrow> n' = n) \<Longrightarrow> tree_set (insert c S)"

text \<open>
  \<open>lattice_ok room S\<close>: every cell of \<open>S\<close> is a room, or is not a room and lies between
  two rooms of \<open>S\<close>, horizontally or vertically. The rooms of the code are the cells with
  both coordinates odd (\<open>odd_room\<close>); the specification takes them to have both
  coordinates even (\<open>even_room\<close>).
\<close>

definition odd_room :: "cell \<Rightarrow> bool" where
  "odd_room c \<longleftrightarrow> odd (fst c) \<and> odd (snd c)"

definition lattice_ok :: "(cell \<Rightarrow> bool) \<Rightarrow> cell set \<Rightarrow> bool" where
  "lattice_ok room S \<longleftrightarrow>
     (\<forall>(x, y) \<in> S. room (x, y) \<or>
        (\<not> room (x, y) \<and>
          ((room (x - 1, y) \<and> room (x + 1, y) \<and> (x - 1, y) \<in> S \<and> (x + 1, y) \<in> S) \<or>
           (room (x, y - 1) \<and> room (x, y + 1) \<and> (x, y - 1) \<in> S \<and> (x, y + 1) \<in> S))))"

text \<open>The invariant of the carve, and the invariants of the search loop.\<close>

definition maze_inv :: "int \<Rightarrow> int \<Rightarrow> cell set \<Rightarrow> bool" where
  "maze_inv w h S \<longleftrightarrow> S \<subseteq> grid_cells w h \<and> lattice_ok odd_room S \<and> tree_set S"

definition queue_ok :: "maze \<Rightarrow> (cell \<times> cell list) list \<Rightarrow> cell set \<Rightarrow> bool" where
  "queue_ok m q v \<longleftrightarrow>
     (\<forall>(c, p) \<in> set q. simple_path (opened m) (1, 0) p c \<and> set p \<subseteq> v) \<and> v \<subseteq> opened m"

definition bfs_inv :: "int \<Rightarrow> int \<Rightarrow> maze \<Rightarrow> (cell \<times> cell list) list \<Rightarrow> cell set \<Rightarrow> bool" where
  "bfs_inv w h m q v \<longleftrightarrow>
     queue_ok m q v \<and> (1, 0) \<in> v \<and>
     (\<forall>c \<in> v. c \<in> fst ` set q \<or>
        (c \<noteq> (w - 2, h - 1) \<and> (\<forall>n \<in> opened m. adjacent c n \<longrightarrow> n \<in> v)))"

definition even_room :: "cell \<Rightarrow> bool" where
  "even_room c \<longleftrightarrow> even (fst c) \<and> even (snd c)"


text \<open>
  The rooms of a grid, and their number: \<open>(w - 1) div 2\<close> columns of \<open>(h - 1) div 2\<close> rooms.
  Every activation of \<open>_carve_path\<close> opens a room that was closed, so no chain of nested
  activations is longer than the number of rooms.
\<close>

definition rooms :: "int \<Rightarrow> int \<Rightarrow> cell set" where
  "rooms w h = {c \<in> grid_cells w h. odd_room c}"

definition room_count :: "int \<Rightarrow> int \<Rightarrow> nat" where
  "room_count w h = nat ((w - 1) div 2) * nat ((h - 1) div 2)"

text \<open>Concrete inputs at which the statements are instantiated.\<close>

definition zero_rng :: rng where
  "zero_rng = (\<lambda>i. 0)"

definition example_heap :: py_heap where
  "example_heap = \<lparr>list_at = (\<lambda>a. []), next_addr = 0\<rparr>"

definition example_generator :: "int \<Rightarrow> int \<Rightarrow> maze_generator" where
  "example_generator w h =
     \<lparr>width = w, height = h,
      wall_appearance = \<lparr>color = (0.8, 0.8, 0.8), alpha = 1, material = ''default''\<rparr>,
      path_appearance = None,
      solution_appearance = \<lparr>color = (1, 1, 0), alpha = 1, material = ''default''\<rparr>,
      u_maze = all_walls w h, u_solution_path = 0\<rparr>"

definition example_seeded :: "int \<Rightarrow> rng" where
  "example_seeded s = (\<lambda>i. nat \<bar>s\<bar> + i)"

definition example_np_zeros :: "position \<Rightarrow> error option" where
  "example_np_zeros d = None"

definition example_grid :: cube_grid where
  "example_grid =
     \<lparr>dimensions = (3, 3, 3), u_grid = (\<lambda>p. False), u_appearances = Map.empty,
      u_default_appearance = \<lparr>color = (0.5, 0.5, 0.5), alpha = 1, material = ''default''\<rparr>\<rparr>"

section \<open>Auxiliary facts\<close>

lemma in_grid_cells [simp]: "(x, y) \<in> grid_cells w h \<longleftrightarrow> 0 \<le> x \<and> x < w \<and> 0 \<le> y \<and> y < h"
  by (simp add: grid_cells_def)

lemma wf_maze_row: "wf_maze w h m \<Longrightarrow> 0 \<le> y \<Longrightarrow> y < h \<Longrightarrow> length (m ! nat y) = nat w"
  by (simp add: wf_maze_def)

lemma cell_index_wf:
  assumes "wf_maze w h m" "0 \<le> x" "x < w" "0 \<le> y" "y < h"
  shows "cell_index m x y = Some (nat y, nat x)"
proof -
  have "py_index y (length m) = Some (nat y)"
    using assms by (simp add: py_index_def wf_maze_def)
  moreover have "py_index x (length (m ! nat y)) = Some (nat x)"
    using assms wf_maze_row[OF assms(1,4,5)] by (simp add: py_index_def)
  ultimately show ?thesis by (simp add: cell_index_def)
qed

lemma opened_subset_grid: "wf_maze w h m \<Longrightarrow> opened m \<subseteq> grid_cells w h"
  by (auto simp: opened_def wf_maze_def)

lemma maze_get_wf:
  assumes "wf_maze w h m" "0 \<le> x" "x < w" "0 \<le> y" "y < h"
  shows "maze_get m x y = Inr ((x, y) \<notin> opened m)"
  using assms wf_maze_row[OF assms(1,4,5)]
  by (simp add: maze_get_def cell_index_wf[OF assms] opened_def wf_maze_def)

lemma wf_maze_update:
  assumes "wf_maze w h m"
  shows "wf_maze w h (m[r := (m ! r)[c := v]])"
proof (cases "r < length m")
  case True
  with assms show ?thesis
    by (auto simp: wf_maze_def dest!: set_update_subset_insert[THEN subsetD])
next
  case False
  then have "m[r := (m ! r)[c := v]] = m" by (intro list_update_beyond) simp
  with assms show ?thesis by simp
qed

lemma opened_update:
  assumes "wf_maze w h m" "0 \<le> x" "x < w" "0 \<le> y" "y < h"
  shows "opened (m[nat y := (m ! nat y)[nat x := False]]) = insert (x, y) (opened m)"
proof -
  have len: "length (m ! nat y) = nat w" "nat y < length m"
    using assms by (simp_all add: wf_maze_def)
  show ?thesis
  proof (rule set_eqI, clarify)
    fix a b :: int
    show "(a, b) \<in> opened (m[nat y := (m ! nat y)[nat x := False]])
            \<longleftrightarrow> (a, b) \<in> insert (x, y) (opened m)"
      using assms len
      by (cases "nat b = nat y"; cases "nat a = nat x")
         (auto simp: opened_def nth_list_update)
  qed
qed

lemma maze_set_wf:
  assumes "wf_maze w h m" "0 \<le> x" "x < w" "0 \<le> y" "y < h"
  obtains m' where "maze_set m x y False = Inr m'" "wf_maze w h m'"
    "opened m' = insert (x, y) (opened m)"
proof
  show "maze_set m x y False = Inr (m[nat y := (m ! nat y)[nat x := False]])"
    by (simp add: maze_set_def cell_index_wf[OF assms])
  show "wf_maze w h (m[nat y := (m ! nat y)[nat x := False]])"
    using assms(1) by (rule wf_maze_update)
  show "opened (m[nat y := (m ! nat y)[nat x := False]]) = insert (x, y) (opened m)"
    using assms by (rule opened_update)
qed

lemma wf_maze_all_walls: "0 \<le> w \<Longrightarrow> 0 \<le> h \<Longrightarrow> wf_maze w h (replicate (nat h) (replicate (nat w) True))"
  by (simp add: wf_maze_def)

lemma opened_all_walls: "opened (replicate (nat h) (replicate (nat w) True)) = {}"
  by (auto simp: opened_def)

lemma mset_shuffle_loop: "k < length xs \<Longrightarrow> mset (fst (shuffle_loop k xs g)) = mset xs"
proof (induction k xs g rule: shuffle_loop.induct)
  case (1 xs g)
  then show ?case by simp
next
  case (2 k xs g)
  let ?j = "g 0 mod (Suc k + 1)"
  have "?j < Suc k + 1" by (rule mod_less_divisor) simp
  with "2.prems" have j: "?j < length xs" by linarith
  have "mset (xs[Suc k := xs ! ?j, ?j := xs ! Suc k]) = mset xs"
    using "2.prems" j by (simp add: mset_swap)
  moreover have "mset (fst (shuffle_loop k (xs[Suc k := xs ! ?j, ?j := xs ! Suc k]) (\<lambda>i. g (Suc i))))
      = mset (xs[Suc k := xs ! ?j, ?j := xs ! Suc k])"
    using "2.prems" by (intro "2.IH"[of ?j "\<lambda>i. g (Suc i)"]) (simp_all add: randbelow_def)
  ultimately show ?case by (simp add: randbelow_def)
qed

lemma set_shuffle: "set (fst (shuffle g xs)) = set xs"
proof (cases xs)
  case Nil
  then show ?thesis by (simp add: shuffle_def)
next
  case (Cons a list)
  then have "mset (fst (shuffle g xs)) = mset xs"
    unfolding shuffle_def by (intro mset_shuffle_loop) simp
  then show ?thesis by (rule mset_eq_setD)
qed

lemma grow_step_mono: "grow_step w h S T \<Longrightarrow> S \<subseteq> T"
  by (auto simp: grow_step_def)

lemma grows_mono: "(grow_step w h)\<^sup>*\<^sup>* S T \<Longrightarrow> S \<subseteq> T"
  by (induction rule: rtranclp_induct) (auto dest: grow_step_mono)

lemma directions_cases:
  "(dx, dy) \<in> set directions \<longleftrightarrow>
     (dx = 0 \<and> dy = -2) \<or> (dx = 2 \<and> dy = 0) \<or> (dx = 0 \<and> dy = 2) \<or> (dx = -2 \<and> dy = 0)"
  by (auto simp: directions_def)

lemma between_in_grid:
  "(dx, dy) \<in> set directions \<Longrightarrow> (x, y) \<in> grid_cells w h \<Longrightarrow> (x + dx, y + dy) \<in> grid_cells w h
   \<Longrightarrow> (x + dx div 2, y + dy div 2) \<in> grid_cells w h"
  unfolding directions_cases by auto

lemma between_not_room:
  "(dx, dy) \<in> set directions \<Longrightarrow> odd x \<Longrightarrow> odd y \<Longrightarrow>
   \<not> (odd (x + dx div 2) \<and> odd (y + dy div 2))"
  unfolding directions_cases by auto

lemma step_room:
  "(dx, dy) \<in> set directions \<Longrightarrow> odd x \<Longrightarrow> odd y \<Longrightarrow> odd (x + dx) \<and> odd (y + dy)"
  unfolding directions_cases by auto

lemma rooms_closed_mono:
  "rooms_closed w h S R \<Longrightarrow> S \<subseteq> S' \<Longrightarrow> R' \<subseteq> R \<Longrightarrow> rooms_closed w h S' R'"
  unfolding rooms_closed_def by blast

lemma rooms_closed_Un:
  "rooms_closed w h S R \<Longrightarrow> rooms_closed w h S R' \<Longrightarrow> rooms_closed w h S (R \<union> R')"
  unfolding rooms_closed_def by blast

lemma carve_loop_Cons:
  "carve_loop n w h (m, g) x y ((dx, dy) # ds) =
     (if (x + dx, y + dy) \<in> grid_cells w h then
        (case maze_get m (x + dx) (y + dy) of
           Inl e \<Rightarrow> Inl e
         | Inr wall \<Rightarrow>
             if wall then
               (case maze_set m (x + dx div 2) (y + dy div 2) False of
                  Inl e \<Rightarrow> Inl e
                | Inr m1 \<Rightarrow>
                    (case carve_path n w h (m1, g) (x + dx) (y + dy) of
                       Inl e \<Rightarrow> Inl e
                     | Inr s \<Rightarrow> carve_loop n w h s x y ds))
             else carve_loop n w h (m, g) x y ds)
      else carve_loop n w h (m, g) x y ds)"
  by (simp add: Let_def)

declare carve_loop.simps(2) [simp del]

lemma rooms_closed_non_room: "\<not> (odd a \<and> odd b) \<Longrightarrow> rooms_closed w h S {(a, b)}"
  unfolding rooms_closed_def by blast

lemma finite_rooms: "finite (rooms w h)"
  unfolding rooms_def using finite_grid_cells by simp

lemma in_rooms: "(x, y) \<in> rooms w h \<longleftrightarrow> (x, y) \<in> grid_cells w h \<and> odd x \<and> odd y"
  by (simp add: rooms_def odd_room_def)

lemma card_rooms_mono: "S \<subseteq> T \<Longrightarrow> card (rooms w h - T) \<le> card (rooms w h - S)"
  by (intro card_mono finite_Diff finite_rooms) blast

lemma card_rooms_less:
  assumes "c \<in> rooms w h" "c \<notin> S" "insert c S \<subseteq> T"
  shows "card (rooms w h - T) < card (rooms w h - S)"
proof -
  have "rooms w h - T \<subseteq> (rooms w h - S) - {c}" using assms(3) by blast
  then have "card (rooms w h - T) \<le> card ((rooms w h - S) - {c})"
    by (intro card_mono finite_Diff finite_rooms)
  also have "\<dots> < card (rooms w h - S)"
    using assms(1,2) by (intro card_Diff1_less finite_Diff finite_rooms) simp
  finally show ?thesis .
qed

text \<open>
  The carve, for every number of frames: either it raises \<open>RecursionError\<close>, and then more
  rooms were closed than frames were left, or it returns a field grown from the given one
  in which every room it opened has its neighbour rooms open.
\<close>

lemma carve_sound:
  "wf_maze w h (fst s) \<Longrightarrow> (x, y) \<in> grid_cells w h \<Longrightarrow> odd x \<Longrightarrow> odd y \<Longrightarrow>
     (carve_path n w h s x y = Inl RecursionError
        \<and> n \<le> card (rooms w h - insert (x, y) (opened (fst s))))
     \<or> (\<exists>m' g'. carve_path n w h s x y = Inr (m', g') \<and> wf_maze w h m'
        \<and> (grow_step w h)\<^sup>*\<^sup>* (insert (x, y) (opened (fst s))) (opened m')
        \<and> rooms_closed w h (opened m') (opened m' - (opened (fst s) - {(x, y)})))"
  "wf_maze w h (fst s) \<Longrightarrow> (x, y) \<in> grid_cells w h \<Longrightarrow> odd x \<Longrightarrow> odd y \<Longrightarrow>
   (x, y) \<in> opened (fst s) \<Longrightarrow> set ds \<subseteq> set directions \<Longrightarrow>
     (carve_loop n w h s x y ds = Inl RecursionError \<and> n < card (rooms w h - opened (fst s)))
     \<or> (\<exists>m' g'. carve_loop n w h s x y ds = Inr (m', g') \<and> wf_maze w h m'
        \<and> (grow_step w h)\<^sup>*\<^sup>* (opened (fst s)) (opened m')
        \<and> rooms_closed w h (opened m') (opened m' - opened (fst s))
        \<and> (\<forall>(dx, dy) \<in> set ds. (x + dx, y + dy) \<in> grid_cells w h
              \<longrightarrow> (x + dx, y + dy) \<in> opened m'))"
proof (induction n w h s x y and n w h s x y ds rule: carve_path_carve_loop.induct)
  case (1 w h m g x y)
  then show ?case by simp
next
  case (2 n w h m g x y)
  from "2.prems" have wf: "wf_maze w h m" and xy: "0 \<le> x" "x < w" "0 \<le> y" "y < h" by simp_all
  from maze_set_wf[OF wf xy] obtain m1 where
    m1: "maze_set m x y False = Inr m1" "wf_maze w h m1" "opened m1 = insert (x, y) (opened m)"
    by blast
  obtain ds g1 where sh: "shuffle g directions = (ds, g1)" by (cases "shuffle g directions")
  have ds: "set ds = set directions" using set_shuffle[of g directions] sh by simp
  from "2.IH"[OF m1(1) sh[symmetric]] m1(2,3) "2.prems"(2-4) ds
  have "(carve_loop n w h (m1, g1) x y ds = Inl RecursionError
           \<and> n < card (rooms w h - opened m1))
     \<or> (\<exists>m' g'. carve_loop n w h (m1, g1) x y ds = Inr (m', g') \<and> wf_maze w h m'
        \<and> (grow_step w h)\<^sup>*\<^sup>* (opened m1) (opened m')
        \<and> rooms_closed w h (opened m') (opened m' - opened m1)
        \<and> (\<forall>(dx, dy) \<in> set ds. (x + dx, y + dy) \<in> grid_cells w h
              \<longrightarrow> (x + dx, y + dy) \<in> opened m'))"
    by simp
  then show ?case
  proof (elim disjE conjE exE)
    assume f: "carve_loop n w h (m1, g1) x y ds = Inl RecursionError"
      "n < card (rooms w h - opened m1)"
    have "carve_path (Suc n) w h (m, g) x y = Inl RecursionError"
      using m1(1) sh f(1) by simp
    moreover have "Suc n \<le> card (rooms w h - insert (x, y) (opened m))"
      using f(2) m1(3) by simp
    ultimately show ?thesis by simp
  next
    fix m' g'
    assume r: "carve_loop n w h (m1, g1) x y ds = Inr (m', g')" "wf_maze w h m'"
       "(grow_step w h)\<^sup>*\<^sup>* (opened m1) (opened m')"
       "rooms_closed w h (opened m') (opened m' - opened m1)"
       "\<forall>(dx, dy) \<in> set ds. (x + dx, y + dy) \<in> grid_cells w h \<longrightarrow> (x + dx, y + dy) \<in> opened m'"
    have "rooms_closed w h (opened m') {(x, y)}"
      using r(5) ds unfolding rooms_closed_def by simp
    from rooms_closed_Un[OF r(4) this]
    have "rooms_closed w h (opened m') (opened m' - (opened m - {(x, y)}))"
      by (rule rooms_closed_mono) (auto simp: m1(3))
    moreover have "carve_path (Suc n) w h (m, g) x y = Inr (m', g')"
      using m1(1) sh r(1) by simp
    ultimately show ?thesis using r(2,3) m1(3) by auto
  qed
next
  case (3 n w h m g x y)
  then show ?case by (simp add: rooms_closed_def)
next
  case (4 n w h m g x y dx dy ds)
  from "4.prems" have wf: "wf_maze w h m" and xy: "(x, y) \<in> grid_cells w h" "odd x" "odd y"
    and op: "(x, y) \<in> opened m" and d: "(dx, dy) \<in> set directions"
    and ds: "set ds \<subseteq> set directions"
    by simp_all
  let ?nx = "x + dx" and ?ny = "y + dy"
  let ?wx = "x + dx div 2" and ?wy = "y + dy div 2"
  show ?case
  proof (cases "(?nx, ?ny) \<in> grid_cells w h \<and> (?nx, ?ny) \<notin> opened m")
    case False
    then have eq: "carve_loop n w h (m, g) x y ((dx, dy) # ds) = carve_loop n w h (m, g) x y ds"
      using maze_get_wf[OF wf, of ?nx ?ny] by (auto simp: carve_loop_Cons)
    have "(carve_loop n w h (m, g) x y ds = Inl RecursionError
             \<and> n < card (rooms w h - opened m))
      \<or> (\<exists>m' g'. carve_loop n w h (m, g) x y ds = Inr (m', g') \<and> wf_maze w h m'
        \<and> (grow_step w h)\<^sup>*\<^sup>* (opened m) (opened m')
        \<and> rooms_closed w h (opened m') (opened m' - opened m)
        \<and> (\<forall>(dx, dy) \<in> set ds. (x + dx, y + dy) \<in> grid_cells w h
              \<longrightarrow> (x + dx, y + dy) \<in> opened m'))"
    proof (cases "(?nx, ?ny) \<in> grid_cells w h")
      case True
      with False have "maze_get m ?nx ?ny = Inr False"
        using maze_get_wf[OF wf, of ?nx ?ny] by simp
      from "4.IH"(3)[OF refl refl _ this] True wf xy op ds show ?thesis by simp
    next
      case out: False
      from "4.IH"(4)[OF refl refl] out wf xy op ds show ?thesis by simp
    qed
    then show ?thesis
    proof (elim disjE conjE exE)
      assume "carve_loop n w h (m, g) x y ds = Inl RecursionError"
        "n < card (rooms w h - opened m)"
      with eq show ?thesis by simp
    next
      fix m' g'
      assume r: "carve_loop n w h (m, g) x y ds = Inr (m', g')" "wf_maze w h m'"
        "(grow_step w h)\<^sup>*\<^sup>* (opened m) (opened m')"
        "rooms_closed w h (opened m') (opened m' - opened m)"
        "\<forall>(dx, dy) \<in> set ds. (x + dx, y + dy) \<in> grid_cells w h \<longrightarrow> (x + dx, y + dy) \<in> opened m'"
      have "(?nx, ?ny) \<in> grid_cells w h \<longrightarrow> (?nx, ?ny) \<in> opened m'"
        using False grows_mono[OF r(3)] by blast
      with r eq show ?thesis by auto
    qed
  next
    case True
    then have inb: "0 \<le> ?nx \<and> ?nx < w \<and> 0 \<le> ?ny \<and> ?ny < h" and nin: "(?nx, ?ny) \<notin> opened m"
      by simp_all
    have get: "maze_get m ?nx ?ny = Inr True"
      using maze_get_wf[OF wf, of ?nx ?ny] inb nin by simp
    have "(?wx, ?wy) \<in> grid_cells w h" using between_in_grid[OF d xy(1)] True by simp
    then have wxy: "0 \<le> ?wx" "?wx < w" "0 \<le> ?wy" "?wy < h" by simp_all
    from maze_set_wf[OF wf wxy] obtain m1 where
      m1: "maze_set m ?wx ?wy False = Inr m1" "wf_maze w h m1"
          "opened m1 = insert (?wx, ?wy) (opened m)"
      by blast
    have nroom: "odd ?nx" "odd ?ny" using step_room[OF d xy(2,3)] by simp_all
    have inroom: "(?nx, ?ny) \<in> rooms w h" using True nroom by (simp add: in_rooms)
    from "4.IH"(1)[OF refl refl inb get _ m1(1)] m1(2) True nroom
    have "(carve_path n w h (m1, g) ?nx ?ny = Inl RecursionError
            \<and> n \<le> card (rooms w h - insert (?nx, ?ny) (opened m1)))
      \<or> (\<exists>m2 g2. carve_path n w h (m1, g) ?nx ?ny = Inr (m2, g2) \<and> wf_maze w h m2
         \<and> (grow_step w h)\<^sup>*\<^sup>* (insert (?nx, ?ny) (opened m1)) (opened m2)
         \<and> rooms_closed w h (opened m2) (opened m2 - (opened m1 - {(?nx, ?ny)})))"
      by simp
    then show ?thesis
    proof (elim disjE conjE exE)
      assume f: "carve_path n w h (m1, g) ?nx ?ny = Inl RecursionError"
        "n \<le> card (rooms w h - insert (?nx, ?ny) (opened m1))"
      have "card (rooms w h - insert (?nx, ?ny) (opened m1)) < card (rooms w h - opened m)"
        using inroom nin by (rule card_rooms_less) (auto simp: m1(3))
      with f(2) have "n < card (rooms w h - opened m)" by simp
      moreover have "carve_loop n w h (m, g) x y ((dx, dy) # ds) = Inl RecursionError"
        using True get m1(1) f(1) by (simp add: carve_loop_Cons)
      ultimately show ?thesis by simp
    next
      fix m2 g2
      assume p: "carve_path n w h (m1, g) ?nx ?ny = Inr (m2, g2)" "wf_maze w h m2"
         "(grow_step w h)\<^sup>*\<^sup>* (insert (?nx, ?ny) (opened m1)) (opened m2)"
         "rooms_closed w h (opened m2) (opened m2 - (opened m1 - {(?nx, ?ny)}))"
      have step: "grow_step w h (opened m) (insert (?nx, ?ny) (opened m1))"
        unfolding grow_step_def m1(3) using op xy d True by blast
      have sub2: "insert (?nx, ?ny) (opened m1) \<subseteq> opened m2" using grows_mono[OF p(3)] .
      then have op2: "(x, y) \<in> opened m2" using op m1(3) by blast
      have sub12: "opened m \<subseteq> opened m2" using sub2 m1(3) by blast
      from "4.IH"(2)[OF refl refl inb get _ m1(1) p(1)] p(2) xy op2 ds
      have "(carve_loop n w h (m2, g2) x y ds = Inl RecursionError
               \<and> n < card (rooms w h - opened m2))
        \<or> (\<exists>m' g'. carve_loop n w h (m2, g2) x y ds = Inr (m', g') \<and> wf_maze w h m'
          \<and> (grow_step w h)\<^sup>*\<^sup>* (opened m2) (opened m')
          \<and> rooms_closed w h (opened m') (opened m' - opened m2)
          \<and> (\<forall>(dx, dy) \<in> set ds. (x + dx, y + dy) \<in> grid_cells w h
                \<longrightarrow> (x + dx, y + dy) \<in> opened m'))"
        by simp
      then show ?thesis
      proof (elim disjE conjE exE)
        assume f: "carve_loop n w h (m2, g2) x y ds = Inl RecursionError"
          "n < card (rooms w h - opened m2)"
        from f(2) card_rooms_mono[OF sub12, of w h]
        have "n < card (rooms w h - opened m)" by simp
        moreover have "carve_loop n w h (m, g) x y ((dx, dy) # ds) = Inl RecursionError"
          using True get m1(1) p(1) f(1) by (simp add: carve_loop_Cons)
        ultimately show ?thesis by simp
      next
        fix m' g'
        assume r: "carve_loop n w h (m2, g2) x y ds = Inr (m', g')" "wf_maze w h m'"
          "(grow_step w h)\<^sup>*\<^sup>* (opened m2) (opened m')"
          "rooms_closed w h (opened m') (opened m' - opened m2)"
          "\<forall>(dx, dy) \<in> set ds. (x + dx, y + dy) \<in> grid_cells w h \<longrightarrow> (x + dx, y + dy) \<in> opened m'"
        have sub3: "opened m2 \<subseteq> opened m'" using grows_mono[OF r(3)] .
        have eq: "carve_loop n w h (m, g) x y ((dx, dy) # ds) = Inr (m', g')"
          using True get m1(1) p(1) r(1) by (simp add: carve_loop_Cons)
        have grows: "(grow_step w h)\<^sup>*\<^sup>* (opened m) (opened m')"
          using step p(3) r(3) by (meson converse_rtranclp_into_rtranclp rtranclp_trans)
        have c2: "rooms_closed w h (opened m') (opened m2 - (opened m1 - {(?nx, ?ny)}))"
          using p(4) sub3 by (rule rooms_closed_mono) simp
        have "rooms_closed w h (opened m') {(?wx, ?wy)}"
          using between_not_room[OF d xy(2,3)] by (rule rooms_closed_non_room)
        from rooms_closed_Un[OF rooms_closed_Un[OF r(4) c2] this]
        have closed: "rooms_closed w h (opened m') (opened m' - opened m)"
          by (rule rooms_closed_mono) (auto simp: m1(3))
        have "(?nx, ?ny) \<in> opened m'" using sub2 sub3 by blast
        with eq r(2,5) grows closed show ?thesis by auto
      qed
    qed
  qed
qed

text \<open>
  More frames change nothing for a carve that did not run out of them.
\<close>

lemma carve_frames_mono:
  "carve_path n w h s x y \<noteq> Inl RecursionError \<Longrightarrow>
     carve_path (n + k) w h s x y = carve_path n w h s x y"
  "carve_loop n w h s x y ds \<noteq> Inl RecursionError \<Longrightarrow>
     carve_loop (n + k) w h s x y ds = carve_loop n w h s x y ds"
proof (induction n w h s x y and n w h s x y ds rule: carve_path_carve_loop.induct)
  case (1 w h m g x y)
  then show ?case by simp
next
  case (2 n w h m g x y)
  show ?case
  proof (cases "maze_set m x y False")
    case (Inl e)
    then show ?thesis by simp
  next
    case (Inr m1)
    obtain ds g1 where sh: "shuffle g directions = (ds, g1)" by (cases "shuffle g directions")
    from "2.prems" Inr sh have "carve_loop n w h (m1, g1) x y ds \<noteq> Inl RecursionError" by simp
    from "2.IH"[OF Inr sh[symmetric] this] Inr sh show ?thesis by simp
  qed
next
  case (3 n w h m g x y)
  then show ?case by simp
next
  case (4 n w h m g x y dx dy ds)
  let ?nx = "x + dx" and ?ny = "y + dy"
  show ?case
  proof (cases "(?nx, ?ny) \<in> grid_cells w h")
    case og: False
    then have out: "\<not> (0 \<le> ?nx \<and> ?nx < w \<and> 0 \<le> ?ny \<and> ?ny < h)" by simp
    from "4.prems" og have "carve_loop n w h (m, g) x y ds \<noteq> Inl RecursionError"
      by (simp add: carve_loop_Cons del: in_grid_cells)
    from "4.IH"(4)[OF refl refl out this] og show ?thesis
      by (simp add: carve_loop_Cons del: in_grid_cells)
  next
    case ig: True
    then have inb: "0 \<le> ?nx \<and> ?nx < w \<and> 0 \<le> ?ny \<and> ?ny < h" by simp
    show ?thesis
    proof (cases "maze_get m ?nx ?ny")
      case (Inl e)
      with ig show ?thesis by (simp add: carve_loop_Cons del: in_grid_cells)
    next
      case get: (Inr wall)
      show ?thesis
      proof (cases wall)
        case False
        with "4.prems" ig get have "carve_loop n w h (m, g) x y ds \<noteq> Inl RecursionError"
          by (simp add: carve_loop_Cons del: in_grid_cells)
        from "4.IH"(3)[OF refl refl inb get False this] ig get False show ?thesis
          by (simp add: carve_loop_Cons del: in_grid_cells)
      next
        case True
        show ?thesis
        proof (cases "maze_set m (x + dx div 2) (y + dy div 2) False")
          case (Inl e)
          with ig get True show ?thesis by (simp add: carve_loop_Cons del: in_grid_cells)
        next
          case m1: (Inr m1)
          from "4.prems" ig get True m1
          have ne: "carve_path n w h (m1, g) ?nx ?ny \<noteq> Inl RecursionError"
            by (auto simp add: carve_loop_Cons simp del: in_grid_cells)
          note p = "4.IH"(1)[OF refl refl inb get True m1 ne]
          show ?thesis
          proof (cases "carve_path n w h (m1, g) ?nx ?ny")
            case (Inl e)
            with p ig get True m1 show ?thesis by (simp add: carve_loop_Cons del: in_grid_cells)
          next
            case s: (Inr s)
            from "4.prems" ig get True m1 s
            have "carve_loop n w h s x y ds \<noteq> Inl RecursionError"
              by (simp add: carve_loop_Cons del: in_grid_cells)
            from "4.IH"(2)[OF refl refl inb get True m1 s this] p s ig get True m1
            show ?thesis by (simp add: carve_loop_Cons del: in_grid_cells)
          qed
        qed
      qed
    qed
  qed
qed

lemma carve_path_frames_le:
  assumes "carve_path n w h s x y \<noteq> Inl RecursionError" "n \<le> n'"
  shows "carve_path n' w h s x y = carve_path n w h s x y"
  using carve_frames_mono(1)[OF assms(1), of "n' - n"] assms(2) by simp

lemma adjacent_sym: "adjacent a b \<longleftrightarrow> adjacent b a"
  by (auto simp: adjacent_def)

lemma adjacent_flip: "(\<lambda>x y. adjacent y x) = adjacent"
  by (intro ext) (rule adjacent_sym)

lemma successively_adjacent_flip:
  "successively (\<lambda>x y. adjacent y x) p \<longleftrightarrow> successively adjacent p"
  by (simp only: adjacent_flip)

lemma simple_path_rev: "simple_path S u p v \<longleftrightarrow> simple_path S v (rev p) u"
  unfolding simple_path_def
  by (auto simp: hd_rev last_rev successively_adjacent_flip)

lemma simple_pathD:
  assumes "simple_path S u p v"
  shows "p \<noteq> []" "hd p = u" "last p = v" "set p \<subseteq> S" "successively adjacent p" "distinct p"
  using assms by (simp_all add: simple_path_def)

lemma simple_path_loop:
  assumes "simple_path S u p u"
  shows "p = [u]"
proof (cases p)
  case Nil
  with assms show ?thesis by (simp add: simple_path_def)
next
  case (Cons x xs)
  show ?thesis
  proof (cases xs)
    case Nil
    with Cons assms show ?thesis by (simp add: simple_path_def)
  next
    case (Cons y ys)
    with \<open>p = x # xs\<close> assms have "x = u" "last xs = u" "u \<notin> set xs" "xs \<noteq> []"
      by (auto simp: simple_path_def)
    then show ?thesis using last_in_set by metis
  qed
qed

lemma simple_path_single: "u \<in> S \<Longrightarrow> simple_path S u [u] u"
  by (simp add: simple_path_def)

lemma simple_path_subset: "simple_path S u p v \<Longrightarrow> S \<subseteq> S' \<Longrightarrow> simple_path S' u p v"
  by (auto simp: simple_path_def)

lemma simple_path_restrict:
  "simple_path (insert c S) u p v \<Longrightarrow> c \<notin> set p \<Longrightarrow> simple_path S u p v"
  by (auto simp: simple_path_def)

lemma simple_path_avoids_leaf:
  assumes p: "simple_path (insert c S) u p v" and uv: "u \<noteq> c" "v \<noteq> c"
    and leaf: "\<forall>n' \<in> S. adjacent c n' \<longrightarrow> n' = n"
  shows "c \<notin> set p"
proof
  assume "c \<in> set p"
  then obtain xs ys where split: "p = xs @ c # ys" by (auto dest: split_list)
  note d = simple_pathD[OF p, unfolded split]
  from d(2) uv(1) have xs: "xs \<noteq> []" by (cases xs) auto
  from d(3) uv(2) have ys: "ys \<noteq> []" by (cases ys) auto
  from d(6) have dist: "c \<notin> set xs" "c \<notin> set ys" "set xs \<inter> set ys = {}"
    by auto
  from d(4) have sub: "set xs \<subseteq> insert c S" "set ys \<subseteq> insert c S"
    by auto
  from d(5) xs have adj1: "adjacent (last xs) c"
    by (simp add: successively_append_iff)
  from d(5) ys have adj2: "adjacent c (hd ys)"
    by (simp add: successively_append_iff successively_Cons)
  note adj = adj1 adj2
  have lx: "last xs \<in> set xs" using xs by simp
  have hy: "hd ys \<in> set ys" using ys by simp
  from lx dist(1) sub(1) have "last xs \<in> S" by auto
  with adj(1) leaf have "last xs = n" using adjacent_sym by blast
  moreover from hy dist(2) sub(2) have "hd ys \<in> S" by auto
  with adj(2) leaf have "hd ys = n" by blast
  ultimately show False using lx hy dist(3) by auto
qed

lemma simple_path_from_leaf:
  assumes c: "c \<notin> S" and n: "n \<in> S" "adjacent c n"
    and leaf: "\<forall>n' \<in> S. adjacent c n' \<longrightarrow> n' = n" and v: "v \<noteq> c"
  shows "simple_path (insert c S) c p v \<longleftrightarrow> (\<exists>q. p = c # q \<and> simple_path S n q v)"
proof
  assume p: "simple_path (insert c S) c p v"
  then obtain q where pq: "p = c # q" by (cases p) (auto simp: simple_path_def)
  note d = simple_pathD[OF p, unfolded pq]
  from d(3) v have q: "q \<noteq> []" by (cases q) auto
  from d(6) have cq1: "c \<notin> set q" "distinct q" by simp_all
  from d(4) have cq2: "set q \<subseteq> insert c S" by simp
  from d(5) q have cq3: "adjacent c (hd q)" "successively adjacent q"
    by (simp_all add: successively_Cons)
  from d(3) q have cq4: "last q = v" by simp
  note cq = cq1(1) cq2 cq3 cq1(2) cq4
  have "hd q \<in> set q" using q by simp
  with cq(1,2) have "hd q \<in> S" by auto
  with cq(3) leaf have "hd q = n" by blast
  with q cq have "simple_path S n q v" unfolding simple_path_def by blast
  with pq show "\<exists>q. p = c # q \<and> simple_path S n q v" by blast
next
  assume "\<exists>q. p = c # q \<and> simple_path S n q v"
  then obtain q where pq: "p = c # q" and q: "simple_path S n q v" by blast
  note d = simple_pathD[OF q]
  from d(4) c have "c \<notin> set q" by auto
  with d n(2) show "simple_path (insert c S) c p v"
    unfolding pq simple_path_def by (auto simp: successively_Cons)
qed

lemma ex1_path_from_leaf:
  assumes c: "c \<notin> S" and n: "n \<in> S" "adjacent c n"
    and leaf: "\<forall>n' \<in> S. adjacent c n' \<longrightarrow> n' = n" and v: "v \<noteq> c"
    and IH: "\<exists>!q. simple_path S n q v"
  shows "\<exists>!p. simple_path (insert c S) c p v"
proof -
  from IH obtain q where q: "simple_path S n q v" "\<And>q'. simple_path S n q' v \<Longrightarrow> q' = q"
    by blast
  show ?thesis
  proof (rule ex1I[of _ "c # q"])
    show "simple_path (insert c S) c (c # q) v"
      using simple_path_from_leaf[OF c n leaf v] q(1) by blast
  next
    fix p assume "simple_path (insert c S) c p v"
    then obtain q' where "p = c # q'" "simple_path S n q' v"
      using simple_path_from_leaf[OF c n leaf v] by blast
    with q(2) show "p = c # q" by blast
  qed
qed

lemma ex1_path_rev: "(\<exists>!p. simple_path S u p v) \<longleftrightarrow> (\<exists>!p. simple_path S v p u)"
proof -
  have *: "\<exists>!p. simple_path S b p a" if "\<exists>!p. simple_path S a p b" for a b
  proof -
    from that obtain p where p: "simple_path S a p b" "\<And>q. simple_path S a q b \<Longrightarrow> q = p"
      by blast
    show ?thesis
    proof (rule ex1I[of _ "rev p"])
      show "simple_path S b (rev p) a" using p(1) simple_path_rev by blast
    next
      fix q assume "simple_path S b q a"
      then have "simple_path S a (rev q) b" using simple_path_rev by blast
      then have "rev q = p" by (rule p(2))
      then show "q = rev p" by (metis rev_rev_ident)
    qed
  qed
  show ?thesis using *[of u v] *[of v u] by (rule iffI)
qed

lemma ex1_path_loop: "c \<in> S \<Longrightarrow> \<exists>!p. simple_path S c p c"
proof (rule ex1I[of _ "[c]"])
  show "c \<in> S \<Longrightarrow> simple_path S c [c] c" by (rule simple_path_single)
next
  fix p assume "simple_path S c p c"
  then show "p = [c]" by (rule simple_path_loop)
qed

theorem tree_unique_path:
  "tree_set S \<Longrightarrow> u \<in> S \<Longrightarrow> v \<in> S \<Longrightarrow> \<exists>!p. simple_path S u p v"
proof (induction arbitrary: u v rule: tree_set.induct)
  case (single c)
  then have uv: "u = c" "v = c" by simp_all
  show ?case unfolding uv by (rule ex1_path_loop) simp
next
  case (leaf S c n)
  show ?case
  proof (cases "u = c")
    case uc: True
    show ?thesis
    proof (cases "v = c")
      case True
      show ?thesis unfolding uc True by (rule ex1_path_loop) simp
    next
      case False
      with leaf.prems have "v \<in> S" by simp
      from leaf.IH[OF leaf.hyps(3) this]
      show ?thesis unfolding uc
        by (rule ex1_path_from_leaf[OF leaf.hyps(2,3,4,5) False])
    qed
  next
    case unc: False
    with leaf.prems have uS: "u \<in> S" by simp
    show ?thesis
    proof (cases "v = c")
      case True
      from leaf.IH[OF leaf.hyps(3) uS]
      have "\<exists>!p. simple_path (insert c S) c p u"
        by (rule ex1_path_from_leaf[OF leaf.hyps(2,3,4,5) unc])
      then show ?thesis unfolding True by (rule ex1_path_rev[THEN iffD1])
    next
      case False
      with leaf.prems have vS: "v \<in> S" by simp
      from leaf.IH[OF uS vS] obtain p where
        p: "simple_path S u p v" "\<And>q. simple_path S u q v \<Longrightarrow> q = p" by blast
      show ?thesis
      proof (rule ex1I[of _ p])
        show "simple_path (insert c S) u p v" using p(1) by (rule simple_path_subset) blast
      next
        fix q assume q: "simple_path (insert c S) u q v"
        have "c \<notin> set q" by (rule simple_path_avoids_leaf[OF q unc False leaf.hyps(5)])
        with q have "simple_path S u q v" by (rule simple_path_restrict)
        then show "q = p" by (rule p(2))
      qed
    qed
  qed
qed

lemma lattice_okD:
  assumes "lattice_ok odd_room S" "(x, y) \<in> S"
  shows "(odd x \<and> odd y) \<or> (even x \<and> odd y \<and> (x - 1, y) \<in> S \<and> (x + 1, y) \<in> S)
          \<or> (odd x \<and> even y \<and> (x, y - 1) \<in> S \<and> (x, y + 1) \<in> S)"
proof -
  from assms have "odd_room (x, y) \<or>
        (\<not> odd_room (x, y) \<and>
          ((odd_room (x - 1, y) \<and> odd_room (x + 1, y) \<and> (x - 1, y) \<in> S \<and> (x + 1, y) \<in> S) \<or>
           (odd_room (x, y - 1) \<and> odd_room (x, y + 1) \<and> (x, y - 1) \<in> S \<and> (x, y + 1) \<in> S)))"
    unfolding lattice_ok_def by blast
  then show ?thesis unfolding odd_room_def by auto
qed

lemma lattice_okI:
  assumes "\<And>x y. (x, y) \<in> S \<Longrightarrow>
     (odd x \<and> odd y) \<or> (even x \<and> odd y \<and> (x - 1, y) \<in> S \<and> (x + 1, y) \<in> S)
          \<or> (odd x \<and> even y \<and> (x, y - 1) \<in> S \<and> (x, y + 1) \<in> S)"
  shows "lattice_ok odd_room S"
  unfolding lattice_ok_def
proof (intro ballI)
  fix c assume cS: "c \<in> S"
  obtain x y where c: "c = (x, y)" by (cases c)
  from assms[OF cS[unfolded c]]
  show "case c of (x, y) \<Rightarrow> odd_room (x, y) \<or>
        (\<not> odd_room (x, y) \<and>
          ((odd_room (x - 1, y) \<and> odd_room (x + 1, y) \<and> (x - 1, y) \<in> S \<and> (x + 1, y) \<in> S) \<or>
           (odd_room (x, y - 1) \<and> odd_room (x, y + 1) \<and> (x, y - 1) \<in> S \<and> (x, y + 1) \<in> S)))"
    unfolding c odd_room_def by auto
qed

lemma adjacent_cases:
  "adjacent (a, b) (c, d) \<longleftrightarrow>
     (c = a \<and> d = b - 1) \<or> (c = a + 1 \<and> d = b) \<or> (c = a \<and> d = b + 1) \<or> (c = a - 1 \<and> d = b)"
  unfolding adjacent_def by simp linarith

lemma even_even_closed:
  "lattice_ok odd_room S \<Longrightarrow> even x \<Longrightarrow> even y \<Longrightarrow> (x, y) \<notin> S"
  using lattice_okD by blast

lemma wall_of_closed_room:
  assumes ok: "lattice_ok odd_room S" and room: "odd x" "odd y" and closed: "(x, y) \<notin> S"
    and adj: "adjacent (x, y) c"
  shows "c \<notin> S"
proof
  assume cS: "c \<in> S"
  obtain a b where c: "c = (a, b)" by (cases c)
  from adj[unfolded c adjacent_cases] consider
    "a = x" "b = y - 1" | "a = x + 1" "b = y" | "a = x" "b = y + 1" | "a = x - 1" "b = y"
    by blast
  then show False
  proof cases
    case 1
    with lattice_okD[OF ok cS[unfolded c]] room closed show False by auto
  next
    case 2
    with lattice_okD[OF ok cS[unfolded c]] room closed show False by auto
  next
    case 3
    with lattice_okD[OF ok cS[unfolded c]] room closed show False by auto
  next
    case 4
    with lattice_okD[OF ok cS[unfolded c]] room closed show False by auto
  qed
qed

lemma wall_facts:
  assumes ok: "lattice_ok odd_room S" and xy: "(x, y) \<in> S" "odd x" "odd y"
    and d: "(dx, dy) \<in> set directions" and nin: "(x + dx, y + dy) \<notin> S"
  shows "(x + dx div 2, y + dy div 2) \<notin> S"
    and "\<forall>c' \<in> S. adjacent (x + dx div 2, y + dy div 2) c' \<longrightarrow> c' = (x, y)"
    and "adjacent (x + dx div 2, y + dy div 2) (x, y)"
    and "adjacent (x + dx, y + dy) (x + dx div 2, y + dy div 2)"
    and "(x + dx, y + dy) \<noteq> (x + dx div 2, y + dy div 2)"
proof -
  from d consider "dx = 0" "dy = -2" | "dx = 2" "dy = 0" | "dx = 0" "dy = 2" | "dx = -2" "dy = 0"
    unfolding directions_cases by blast
  then have "(x + dx div 2, y + dy div 2) \<notin> S
    \<and> (\<forall>c' \<in> S. adjacent (x + dx div 2, y + dy div 2) c' \<longrightarrow> c' = (x, y))
    \<and> adjacent (x + dx div 2, y + dy div 2) (x, y)
    \<and> adjacent (x + dx, y + dy) (x + dx div 2, y + dy div 2)
    \<and> (x + dx, y + dy) \<noteq> (x + dx div 2, y + dy div 2)"
  proof cases
    case 1
    have e: "(x - 1, y - 1) \<notin> S" "(x + 1, y - 1) \<notin> S"
      using even_even_closed[OF ok, of "x - 1" "y - 1"] even_even_closed[OF ok, of "x + 1" "y - 1"] xy(2,3)
      by simp_all
    have w: "(x, y - 1) \<notin> S" using lattice_okD[OF ok, of x "y - 1"] nin xy(2,3) 1 by (auto simp: add.commute)
    show ?thesis using e w nin xy 1 by (auto simp: adjacent_cases add.commute)
  next
    case 2
    have e: "(x + 1, y - 1) \<notin> S" "(x + 1, y + 1) \<notin> S"
      using even_even_closed[OF ok, of "x + 1" "y - 1"] even_even_closed[OF ok, of "x + 1" "y + 1"] xy(2,3)
      by simp_all
    have w: "(x + 1, y) \<notin> S" using lattice_okD[OF ok, of "x + 1" y] nin xy(2,3) 2 by (auto simp: add.commute)
    show ?thesis using e w nin xy 2 by (auto simp: adjacent_cases add.commute)
  next
    case 3
    have e: "(x - 1, y + 1) \<notin> S" "(x + 1, y + 1) \<notin> S"
      using even_even_closed[OF ok, of "x - 1" "y + 1"] even_even_closed[OF ok, of "x + 1" "y + 1"] xy(2,3)
      by simp_all
    have w: "(x, y + 1) \<notin> S" using lattice_okD[OF ok, of x "y + 1"] nin xy(2,3) 3 by (auto simp: add.commute)
    show ?thesis using e w nin xy 3 by (auto simp: adjacent_cases add.commute)
  next
    case 4
    have e: "(x - 1, y - 1) \<notin> S" "(x - 1, y + 1) \<notin> S"
      using even_even_closed[OF ok, of "x - 1" "y - 1"] even_even_closed[OF ok, of "x - 1" "y + 1"] xy(2,3)
      by simp_all
    have w: "(x - 1, y) \<notin> S" using lattice_okD[OF ok, of "x - 1" y] nin xy(2,3) 4 by (auto simp: add.commute)
    show ?thesis using e w nin xy 4 by (auto simp: adjacent_cases add.commute)
  qed
  then show "(x + dx div 2, y + dy div 2) \<notin> S"
    and "\<forall>c' \<in> S. adjacent (x + dx div 2, y + dy div 2) c' \<longrightarrow> c' = (x, y)"
    and "adjacent (x + dx div 2, y + dy div 2) (x, y)"
    and "adjacent (x + dx, y + dy) (x + dx div 2, y + dy div 2)"
    and "(x + dx, y + dy) \<noteq> (x + dx div 2, y + dy div 2)"
    by blast+
qed

lemma lattice_ok_grow:
  assumes ok: "lattice_ok odd_room S" and xy: "(x, y) \<in> S" "odd x" "odd y"
    and d: "(dx, dy) \<in> set directions"
  shows "lattice_ok odd_room (insert (x + dx, y + dy) (insert (x + dx div 2, y + dy div 2) S))"
proof (rule lattice_okI)
  let ?T = "insert (x + dx, y + dy) (insert (x + dx div 2, y + dy div 2) S)"
  fix a b assume ab: "(a, b) \<in> ?T"
  from d consider "dx = 0" "dy = -2" | "dx = 2" "dy = 0" | "dx = 0" "dy = 2" | "dx = -2" "dy = 0"
    unfolding directions_cases by blast
  then show "(odd a \<and> odd b) \<or> (even a \<and> odd b \<and> (a - 1, b) \<in> ?T \<and> (a + 1, b) \<in> ?T)
          \<or> (odd a \<and> even b \<and> (a, b - 1) \<in> ?T \<and> (a, b + 1) \<in> ?T)"
  proof cases
    case 1
    show ?thesis
    proof (cases "(a, b) \<in> S")
      case True
      from lattice_okD[OF ok True] show ?thesis by blast
    next
      case False
      with ab 1 xy show ?thesis by auto
    qed
  next
    case 2
    show ?thesis
    proof (cases "(a, b) \<in> S")
      case True
      from lattice_okD[OF ok True] show ?thesis by blast
    next
      case False
      with ab 2 xy show ?thesis by auto
    qed
  next
    case 3
    show ?thesis
    proof (cases "(a, b) \<in> S")
      case True
      from lattice_okD[OF ok True] show ?thesis by blast
    next
      case False
      with ab 3 xy show ?thesis by auto
    qed
  next
    case 4
    show ?thesis
    proof (cases "(a, b) \<in> S")
      case True
      from lattice_okD[OF ok True] show ?thesis by blast
    next
      case False
      with ab 4 xy show ?thesis by auto
    qed
  qed
qed

lemma tree_set_grow:
  assumes ok: "lattice_ok odd_room S" and tr: "tree_set S" and xy: "(x, y) \<in> S" "odd x" "odd y"
    and d: "(dx, dy) \<in> set directions" and nin: "(x + dx, y + dy) \<notin> S"
  shows "tree_set (insert (x + dx, y + dy) (insert (x + dx div 2, y + dy div 2) S))"
proof -
  let ?wc = "(x + dx div 2, y + dy div 2)" and ?n = "(x + dx, y + dy)"
  note wf = wall_facts[OF ok xy d nin]
  have t1: "tree_set (insert ?wc S)"
    using tr wf(1) xy(1) wf(3) wf(2) by (rule tree_set.leaf)
  have nroom: "odd (x + dx)" "odd (y + dy)" using step_room[OF d xy(2,3)] by simp_all
  have uniq: "\<forall>c' \<in> insert ?wc S. adjacent ?n c' \<longrightarrow> c' = ?wc"
    using wall_of_closed_room[OF ok nroom nin] by blast
  have n1: "?n \<notin> insert ?wc S" using nin wf(5) by simp
  have n2: "?wc \<in> insert ?wc S" by simp
  show ?thesis by (rule tree_set.leaf[OF t1 n1 n2 wf(4) uniq])
qed

lemma grow_step_inv: "grow_step w h S T \<Longrightarrow> maze_inv w h S \<Longrightarrow> maze_inv w h T"
proof -
  assume g: "grow_step w h S T" and inv: "maze_inv w h S"
  from g obtain x y dx dy where st: "(x, y) \<in> S" "odd x" "odd y" "(dx, dy) \<in> set directions"
    "(x + dx, y + dy) \<in> grid_cells w h" "(x + dx, y + dy) \<notin> S"
    "T = insert (x + dx, y + dy) (insert (x + dx div 2, y + dy div 2) S)"
    unfolding grow_step_def by blast
  from inv have S: "S \<subseteq> grid_cells w h" "lattice_ok odd_room S" "tree_set S"
    by (simp_all add: maze_inv_def)
  have "(x, y) \<in> grid_cells w h" using S(1) st(1) by blast
  from between_in_grid[OF st(4) this st(5)] S(1) st(5)
  have "T \<subseteq> grid_cells w h" unfolding st(7) by blast
  moreover have "lattice_ok odd_room T" unfolding st(7)
    by (rule lattice_ok_grow[OF S(2) st(1-4)])
  moreover have "tree_set T" unfolding st(7)
    by (rule tree_set_grow[OF S(2,3) st(1-4,6)])
  ultimately show ?thesis by (simp add: maze_inv_def)
qed

lemma grows_inv: "(grow_step w h)\<^sup>*\<^sup>* S T \<Longrightarrow> maze_inv w h S \<Longrightarrow> maze_inv w h T"
  by (induction rule: rtranclp_induct) (auto intro: grow_step_inv)

lemma maze_inv_start: "3 \<le> w \<Longrightarrow> 3 \<le> h \<Longrightarrow> maze_inv w h {(1, 1)}"
  unfolding maze_inv_def
  by (auto intro!: lattice_okI tree_set.single)

lemma explore_Cons:
  "explore w h m (x, y) path ((dx, dy) # ds) (queue, visited) =
     (if (x + dx, y + dy) \<in> grid_cells w h then
        (case maze_get m (x + dx) (y + dy) of
           Inl e \<Rightarrow> Inl e
         | Inr wall \<Rightarrow>
             if \<not> wall \<and> (x + dx, y + dy) \<notin> visited then
               explore w h m (x, y) path ds
                 (queue @ [((x + dx, y + dy), path @ [(x + dx, y + dy)])],
                  insert (x + dx, y + dy) visited)
             else explore w h m (x, y) path ds (queue, visited))
      else explore w h m (x, y) path ds (queue, visited))"
  by (simp add: Let_def)

declare explore.simps(2) [simp del]

lemma solver_directions_cases:
  "(dx, dy) \<in> set solver_directions \<longleftrightarrow>
     (dx = 0 \<and> dy = -1) \<or> (dx = 1 \<and> dy = 0) \<or> (dx = 0 \<and> dy = 1) \<or> (dx = -1 \<and> dy = 0)"
  by (auto simp: solver_directions_def)

lemma adjacent_iff_direction:
  "adjacent (x, y) n \<longleftrightarrow> (\<exists>(dx, dy) \<in> set solver_directions. n = (x + dx, y + dy))"
proof -
  obtain a b where n: "n = (a, b)" by (cases n)
  show ?thesis unfolding n adjacent_cases
    by (auto simp: solver_directions_def)
qed

lemma simple_path_snoc:
  assumes p: "simple_path S u p c" and n: "n \<in> S" "n \<notin> set p" "adjacent c n"
  shows "simple_path S u (p @ [n]) n"
proof -
  note d = simple_pathD[OF p]
  have "successively adjacent (p @ [n])"
    using d(1,3,5) n(3) by (simp add: successively_append_iff)
  then show ?thesis using d n unfolding simple_path_def by auto
qed

lemma queue_ok_snoc:
  assumes q: "queue_ok m q v" and p: "simple_path (opened m) (1, 0) path c" "set path \<subseteq> v"
    and n: "n \<in> opened m" "n \<notin> v" "adjacent c n"
  shows "queue_ok m (q @ [(n, path @ [n])]) (insert n v)"
proof -
  have "n \<notin> set path" using p(2) n(2) by blast
  from simple_path_snoc[OF p(1) n(1) this n(3)]
  have "simple_path (opened m) (1, 0) (path @ [n]) n" .
  moreover have "set (path @ [n]) \<subseteq> insert n v" using p(2) by auto
  moreover have "\<forall>(c, p) \<in> set q. simple_path (opened m) (1, 0) p c \<and> set p \<subseteq> insert n v"
    using q unfolding queue_ok_def by blast
  moreover have "insert n v \<subseteq> opened m" using q n(1) unfolding queue_ok_def by blast
  ultimately show ?thesis unfolding queue_ok_def by simp
qed

lemma explore_inv:
  assumes wf: "wf_maze w h m" and p: "simple_path (opened m) (1, 0) path (x, y)"
  shows "set ds \<subseteq> set solver_directions \<Longrightarrow> queue_ok m q v \<Longrightarrow> set path \<subseteq> v \<Longrightarrow>
    \<exists>q' v'. explore w h m (x, y) path ds (q, v) = Inr (q', v') \<and> queue_ok m q' v' \<and> v \<subseteq> v'
       \<and> fst ` set q' = fst ` set q \<union> (v' - v)
       \<and> (\<forall>d \<in> set ds. (x + fst d, y + snd d) \<in> opened m \<longrightarrow> (x + fst d, y + snd d) \<in> v')"
proof (induction ds arbitrary: q v)
  case Nil
  have "explore w h m (x, y) path [] (q, v) = Inr (q, v)" by simp
  moreover have "fst ` set q = fst ` set q \<union> (v - v)" by blast
  ultimately show ?case using Nil.prems(2) by fastforce
next
  case (Cons d ds)
  obtain dx dy where d: "d = (dx, dy)" by (cases d)
  let ?n = "(x + dx, y + dy)"
  from Cons.prems(1) have dsol: "(dx, dy) \<in> set solver_directions"
    and ds: "set ds \<subseteq> set solver_directions" by (simp_all add: d)
  have sub: "opened m \<subseteq> grid_cells w h" using wf by (rule opened_subset_grid)
  show ?case
  proof (cases "?n \<in> opened m \<and> ?n \<notin> v")
    case True
    then have ng: "?n \<in> grid_cells w h" using sub by blast
    then have get: "maze_get m (x + dx) (y + dy) = Inr False"
      using maze_get_wf[OF wf, of "x + dx" "y + dy"] True by simp
    have eq: "explore w h m (x, y) path (d # ds) (q, v)
        = explore w h m (x, y) path ds (q @ [(?n, path @ [?n])], insert ?n v)"
      unfolding d explore_Cons using ng get True by simp
    have adj: "adjacent (x, y) ?n" unfolding adjacent_iff_direction using dsol by blast
    have pv: "set path \<subseteq> insert ?n v" using Cons.prems(3) by blast
    have qok: "queue_ok m (q @ [(?n, path @ [?n])]) (insert ?n v)"
      using Cons.prems(2) p Cons.prems(3) _ _ adj by (rule queue_ok_snoc) (use True in simp_all)
    from Cons.IH[OF ds qok pv]
    obtain q' v' where r: "explore w h m (x, y) path ds (q @ [(?n, path @ [?n])], insert ?n v)
          = Inr (q', v')" "queue_ok m q' v'" "insert ?n v \<subseteq> v'"
       "fst ` set q' = fst ` set (q @ [(?n, path @ [?n])]) \<union> (v' - insert ?n v)"
       "\<forall>d \<in> set ds. (x + fst d, y + snd d) \<in> opened m \<longrightarrow> (x + fst d, y + snd d) \<in> v'"
      by (elim exE conjE) (rule that; assumption)
    have a: "fst ` set (q @ [(?n, path @ [?n])]) = insert ?n (fst ` set q)" by simp
    have f: "fst ` set q' = fst ` set q \<union> (v' - v)"
      using r(3) True unfolding r(4) a by blast
    have c: "\<forall>d \<in> set (d # ds). (x + fst d, y + snd d) \<in> opened m \<longrightarrow> (x + fst d, y + snd d) \<in> v'"
      using r(3,5) by (simp add: d)
    have s: "v \<subseteq> v'" using r(3) by blast
    show ?thesis unfolding eq using r(1) r(2) s f c by blast
  next
    case False
    have eq: "explore w h m (x, y) path (d # ds) (q, v) = explore w h m (x, y) path ds (q, v)"
    proof (cases "?n \<in> grid_cells w h")
      case True
      then have "maze_get m (x + dx) (y + dy) = Inr (?n \<notin> opened m)"
        using maze_get_wf[OF wf, of "x + dx" "y + dy"] by simp
      with True False show ?thesis unfolding d explore_Cons by auto
    next
      case out: False
      then show ?thesis unfolding d explore_Cons by auto
    qed
    from Cons.IH[OF ds Cons.prems(2,3)]
    obtain q' v' where r: "explore w h m (x, y) path ds (q, v) = Inr (q', v')"
       "queue_ok m q' v'" "v \<subseteq> v'" "fst ` set q' = fst ` set q \<union> (v' - v)"
       "\<forall>d \<in> set ds. (x + fst d, y + snd d) \<in> opened m \<longrightarrow> (x + fst d, y + snd d) \<in> v'"
      by (elim exE conjE) (rule that; assumption)
    have "?n \<in> opened m \<longrightarrow> ?n \<in> v'" using False r(3) by blast
    then have c: "\<forall>d \<in> set (d # ds). (x + fst d, y + snd d) \<in> opened m \<longrightarrow> (x + fst d, y + snd d) \<in> v'"
      using r(5) by (simp add: d)
    show ?thesis unfolding eq using r(1-4) c by blast
  qed
qed

lemma closed_reach:
  assumes closed: "\<forall>c \<in> v. \<forall>n \<in> S. adjacent c n \<longrightarrow> n \<in> v"
  shows "p \<noteq> [] \<Longrightarrow> hd p \<in> v \<Longrightarrow> set p \<subseteq> S \<Longrightarrow> successively adjacent p \<Longrightarrow> set p \<subseteq> v"
proof (induction p)
  case Nil
  then show ?case by simp
next
  case (Cons a p)
  show ?case
  proof (cases p)
    case Nil
    with Cons.prems show ?thesis by simp
  next
    case (Cons b p')
    from Cons.prems(4) have ab: "adjacent a b" and suc: "successively adjacent p"
      unfolding Cons by simp_all
    from Cons.prems(2) have av: "a \<in> v" by simp
    from Cons.prems(3) have bS: "b \<in> S" and pS: "set p \<subseteq> S" unfolding Cons by simp_all
    from closed av bS ab have "b \<in> v" by blast
    then have "hd p \<in> v" unfolding Cons by simp
    moreover have "p \<noteq> []" unfolding Cons by simp
    ultimately have "set p \<subseteq> v" using pS suc by (intro Cons.IH)
    with av show ?thesis by simp
  qed
qed

lemma bfs_inv_empty_contra:
  assumes inv: "bfs_inv w h m [] v" and reach: "simple_path (opened m) (1, 0) p0 (w - 2, h - 1)"
  shows False
proof -
  from inv have start: "(1, 0) \<in> v"
    and cl: "\<forall>c \<in> v. c \<noteq> (w - 2, h - 1) \<and> (\<forall>n \<in> opened m. adjacent c n \<longrightarrow> n \<in> v)"
    unfolding bfs_inv_def by simp_all
  note d = simple_pathD[OF reach]
  have "set p0 \<subseteq> v"
  proof (rule closed_reach[of v "opened m"])
    show "\<forall>c \<in> v. \<forall>n \<in> opened m. adjacent c n \<longrightarrow> n \<in> v" using cl by blast
    show "p0 \<noteq> []" by (rule d(1))
    show "hd p0 \<in> v" using d(2) start by simp
    show "set p0 \<subseteq> opened m" by (rule d(4))
    show "successively adjacent p0" by (rule d(5))
  qed
  moreover have "last p0 \<in> set p0" using d(1) by simp
  ultimately have "(w - 2, h - 1) \<in> v" using d(3) by auto
  with cl show False by blast
qed

lemma bfs_inv_step:
  assumes wf: "wf_maze w h m" and dirs: "set dirs = set solver_directions"
    and inv: "bfs_inv w h m ((c, path) # queue) v" and ne: "c \<noteq> (w - 2, h - 1)"
  shows "\<exists>q' v'. explore w h m c path dirs (queue, v) = Inr (q', v') \<and> bfs_inv w h m q' v'"
proof -
  obtain x y where c: "c = (x, y)" by (cases c)
  from inv have qok: "queue_ok m ((c, path) # queue) v" and start: "(1, 0) \<in> v"
    and cl: "\<forall>c' \<in> v. c' \<in> fst ` set ((c, path) # queue) \<or>
        (c' \<noteq> (w - 2, h - 1) \<and> (\<forall>n \<in> opened m. adjacent c' n \<longrightarrow> n \<in> v))"
    unfolding bfs_inv_def by simp_all
  from qok have p: "simple_path (opened m) (1, 0) path (x, y)" and pv: "set path \<subseteq> v"
    and qok': "queue_ok m queue v"
    unfolding queue_ok_def c by simp_all
  have ds: "set dirs \<subseteq> set solver_directions" using dirs by simp
  from explore_inv[OF wf p ds qok' pv]
  obtain q' v' where r: "explore w h m (x, y) path dirs (queue, v) = Inr (q', v')"
       "queue_ok m q' v'" "v \<subseteq> v'" "fst ` set q' = fst ` set queue \<union> (v' - v)"
       "\<forall>d \<in> set dirs. (x + fst d, y + snd d) \<in> opened m \<longrightarrow> (x + fst d, y + snd d) \<in> v'"
    by (elim exE conjE) (rule that; assumption)
  have cclosed: "\<forall>n \<in> opened m. adjacent c n \<longrightarrow> n \<in> v'"
  proof (intro ballI impI)
    fix n assume n: "n \<in> opened m" "adjacent c n"
    from n(2) obtain dx dy where d: "(dx, dy) \<in> set solver_directions" "n = (x + dx, y + dy)"
      unfolding c adjacent_iff_direction by blast
    from r(5) d(1) dirs have "(x + dx, y + dy) \<in> opened m \<longrightarrow> (x + dx, y + dy) \<in> v'"
      by fastforce
    with n(1) d(2) show "n \<in> v'" by simp
  qed
  have "\<forall>c' \<in> v'. c' \<in> fst ` set q' \<or>
        (c' \<noteq> (w - 2, h - 1) \<and> (\<forall>n \<in> opened m. adjacent c' n \<longrightarrow> n \<in> v'))"
  proof
    fix c' assume c': "c' \<in> v'"
    show "c' \<in> fst ` set q' \<or>
        (c' \<noteq> (w - 2, h - 1) \<and> (\<forall>n \<in> opened m. adjacent c' n \<longrightarrow> n \<in> v'))"
    proof (cases "c' \<in> v")
      case False
      with c' r(4) show ?thesis by blast
    next
      case True
      with cl have "c' = c \<or> c' \<in> fst ` set queue \<or>
        (c' \<noteq> (w - 2, h - 1) \<and> (\<forall>n \<in> opened m. adjacent c' n \<longrightarrow> n \<in> v))"
        by auto
      then show ?thesis using ne cclosed r(3,4) by blast
    qed
  qed
  with r(1,2,3) start show ?thesis unfolding bfs_inv_def c by blast
qed

lemma bfs_correct:
  "wf_maze w h m \<Longrightarrow> set dirs = set solver_directions \<Longrightarrow>
   simple_path (opened m) (1, 0) p0 (w - 2, h - 1) \<Longrightarrow> bfs_inv w h m q v \<Longrightarrow>
   \<exists>p. bfs_loop dirs w h m q v = Inr p \<and> simple_path (opened m) (1, 0) p (w - 2, h - 1)"
proof (induction dirs w h m q v rule: bfs_loop.induct)
  case (1 dirs w h m visited)
  from bfs_inv_empty_contra[OF "1.prems"(4,3)] show ?case ..
next
  case (2 dirs w h m c path queue visited)
  show ?case
  proof (cases "c = (w - 2, h - 1)")
    case True
    from "2.prems"(4) have "simple_path (opened m) (1, 0) path c"
      unfolding bfs_inv_def queue_ok_def by simp
    with True show ?thesis by simp
  next
    case False
    from bfs_inv_step[OF "2.prems"(1,2,4) False]
    obtain q' v' where r: "explore w h m c path dirs (queue, visited) = Inr (q', v')"
      "bfs_inv w h m q' v'" by blast
    from "2.IH"[OF False r(1) refl "2.prems"(1,2,3) r(2)]
    show ?thesis using False r(1) by simp
  qed
qed

lemma bfs_inv_init: "(1, 0) \<in> opened m \<Longrightarrow> bfs_inv w h m [((1, 0), [(1, 0)])] {(1, 0)}"
  unfolding bfs_inv_def queue_ok_def by (simp add: simple_path_single)

lemma find_solution_with_correct:
  assumes "wf_maze w h m" "set dirs = set solver_directions"
    "simple_path (opened m) (1, 0) p0 (w - 2, h - 1)"
  shows "\<exists>p. find_solution_with dirs w h m = Inr p \<and> simple_path (opened m) (1, 0) p (w - 2, h - 1)"
proof -
  from simple_pathD[OF assms(3)] have "(1, 0) \<in> opened m"
    by (metis hd_in_set subsetD)
  then have "bfs_inv w h m [((1, 0), [(1, 0)])] {(1, 0)}" by (rule bfs_inv_init)
  from bfs_correct[OF assms this] show ?thesis unfolding find_solution_with_def .
qed

lemma rooms_closedD:
  "rooms_closed w h S R \<Longrightarrow> (x, y) \<in> R \<Longrightarrow> odd x \<Longrightarrow> odd y \<Longrightarrow> (dx, dy) \<in> set directions
   \<Longrightarrow> (x + dx, y + dy) \<in> grid_cells w h \<Longrightarrow> (x + dx, y + dy) \<in> S"
  unfolding rooms_closed_def by blast

lemma rooms_row_open:
  assumes cl: "rooms_closed w h T T" and start: "(1, 1) \<in> T"
  shows "(1 + 2 * int i, 1) \<in> grid_cells w h \<Longrightarrow> (1 + 2 * int i, 1) \<in> T"
proof (induction i)
  case 0
  with start show ?case by simp
next
  case (Suc i)
  then have prev: "(1 + 2 * int i, 1) \<in> T" by simp
  have "(1 + 2 * int i + 2, 1 + 0) \<in> T"
    using cl prev
  proof (rule rooms_closedD)
    show "odd (1 + 2 * int i)" "odd (1::int)" by simp_all
    show "(2, 0) \<in> set directions" by (simp add: directions_def)
    show "(1 + 2 * int i + 2, 1 + 0) \<in> grid_cells w h" using Suc.prems by simp
  qed
  then show ?case by (simp add: algebra_simps)
qed

lemma rooms_col_open:
  assumes cl: "rooms_closed w h T T" and start: "(1, 1) \<in> T"
  shows "(1 + 2 * int i, 1 + 2 * int j) \<in> grid_cells w h \<Longrightarrow> (1 + 2 * int i, 1 + 2 * int j) \<in> T"
proof (induction j)
  case 0
  with rooms_row_open[OF cl start, of i] show ?case by simp
next
  case (Suc j)
  then have prev: "(1 + 2 * int i, 1 + 2 * int j) \<in> T" by simp
  have "(1 + 2 * int i + 0, 1 + 2 * int j + 2) \<in> T"
    using cl prev
  proof (rule rooms_closedD)
    show "odd (1 + 2 * int i)" "odd (1 + 2 * int j)" by simp_all
    show "(0, 2) \<in> set directions" by (simp add: directions_def)
    show "(1 + 2 * int i + 0, 1 + 2 * int j + 2) \<in> grid_cells w h" using Suc.prems by simp
  qed
  then show ?case by (simp add: algebra_simps)
qed

lemma rooms_all_open:
  assumes cl: "rooms_closed w h T T" and start: "(1, 1) \<in> T"
    and room: "odd x" "odd y" "(x, y) \<in> grid_cells w h"
  shows "(x, y) \<in> T"
proof -
  from room have nn: "0 \<le> x" "0 \<le> y" by simp_all
  define i where "i = nat ((x - 1) div 2)"
  define j where "j = nat ((y - 1) div 2)"
  have "x = 1 + 2 * ((x - 1) div 2)" "0 \<le> (x - 1) div 2" using room(1) nn(1) by presburger+
  then have x: "x = 1 + 2 * int i" unfolding i_def by simp
  have "y = 1 + 2 * ((y - 1) div 2)" "0 \<le> (y - 1) div 2" using room(2) nn(2) by presburger+
  then have y: "y = 1 + 2 * int j" unfolding j_def by simp
  from rooms_col_open[OF cl start, of i j] room(3) show ?thesis unfolding x y by simp
qed

lemma wf_all_walls: "0 \<le> w \<Longrightarrow> 0 \<le> h \<Longrightarrow> wf_maze w h (all_walls w h)"
  unfolding all_walls_def by (rule wf_maze_all_walls)

lemma opened_walls: "opened (all_walls w h) = {}"
  unfolding all_walls_def by (rule opened_all_walls)

text \<open>
  A grid of width 3 has one column of rooms. Whatever the shuffle, the carve of a room of
  the column whose upper neighbour is open and whose lower rooms are all closed descends
  through every lower room before it returns, so it needs as many frames as there are
  rooms from it to the bottom.
\<close>

lemma column_loop:
  assumes wf: "wf_maze 3 h m" and y: "0 \<le> y" "y + 2 < h"
    and up: "y - 2 < 0 \<or> (1, y - 2) \<in> opened m"
    and down: "(1, y + 2) \<notin> opened m"
    and rec: "\<And>m2 g2. maze_set m 1 (y + 1) False = Inr m2 \<Longrightarrow>
                carve_path n 3 h (m2, g2) 1 (y + 2) = Inl RecursionError"
    and ds: "set ds \<subseteq> set directions"
  shows "carve_loop n 3 h (m, g) 1 y ds
           = (if (0, 2) \<in> set ds then Inl RecursionError else Inr (m, g))"
  using ds
proof (induction ds)
  case Nil
  then show ?case by simp
next
  case (Cons d ds)
  obtain dx dy where d: "d = (dx, dy)" by (cases d)
  from Cons.prems have dd: "(dx, dy) \<in> set directions" and ds: "set ds \<subseteq> set directions"
    by (simp_all add: d)
  note IH = Cons.IH[OF ds]
  from dd[unfolded directions_cases]
  consider "dx = 0" "dy = -2" | "dx = 2" "dy = 0" | "dx = 0" "dy = 2" | "dx = -2" "dy = 0"
    by blast
  then show ?case
  proof cases
    case 1
    show ?thesis
    proof (cases "y - 2 < 0")
      case True
      then show ?thesis using IH by (simp add: d 1 carve_loop_Cons)
    next
      case False
      with up have o: "(1, y - 2) \<in> opened m" by simp
      from False y have "maze_get m 1 (y - 2) = Inr False"
        using maze_get_wf[OF wf, of 1 "y - 2"] o by simp
      then show ?thesis using IH False y by (simp add: d 1 carve_loop_Cons)
    qed
  next
    case 2
    then show ?thesis using IH by (simp add: d carve_loop_Cons)
  next
    case 3
    have get: "maze_get m 1 (y + 2) = Inr True"
      using maze_get_wf[OF wf, of 1 "y + 2"] y down by simp
    from maze_set_wf[OF wf, of 1 "y + 1"] y obtain m2 where
      m2: "maze_set m 1 (y + 1) False = Inr m2" by auto
    from rec[OF m2] have "carve_path n 3 h (m2, g) 1 (y + 2) = Inl RecursionError" .
    then show ?thesis using get m2 y by (simp add: d 3 carve_loop_Cons)
  next
    case 4
    then show ?thesis using IH by (simp add: d carve_loop_Cons)
  qed
qed

lemma column_runs_out:
  assumes "wf_maze 3 h m" "odd h" "odd y" "0 < y" "y < h - 1"
    and "y = 1 \<or> (1, y - 2) \<in> opened m"
    and "\<forall>y'. y < y' \<longrightarrow> (1, y') \<notin> opened m"
    and "int n < (h - y) div 2"
  shows "carve_path n 3 h (m, g) 1 y = Inl RecursionError"
  using assms
proof (induction n arbitrary: m g y)
  case 0
  then show ?case by simp
next
  case (Suc n)
  note wf = Suc.prems(1) and h = Suc.prems(2) and y = Suc.prems(3,4,5)
    and up = Suc.prems(6) and below = Suc.prems(7) and fr = Suc.prems(8)
  from fr have two: "2 \<le> (h - y) div 2" by simp
  then have y2: "y + 2 < h - 1" using h y(1) by presburger
  from maze_set_wf[OF wf, of 1 y] y obtain m1 where
    m1: "maze_set m 1 y False = Inr m1" "wf_maze 3 h m1" "opened m1 = insert (1, y) (opened m)"
    by auto
  obtain ds g1 where sh: "shuffle g directions = (ds, g1)" by (cases "shuffle g directions")
  have ds: "set ds = set directions" using set_shuffle[of g directions] sh by simp
  have "carve_loop n 3 h (m1, g1) 1 y ds
          = (if (0, 2) \<in> set ds then Inl RecursionError else Inr (m1, g1))"
  proof (rule column_loop[OF m1(2)])
    show "0 \<le> y" "y + 2 < h" using y y2 by simp_all
    show "y - 2 < 0 \<or> (1, y - 2) \<in> opened m1" using up m1(3) by auto
    show "(1, y + 2) \<notin> opened m1" using below m1(3) by simp
    show "set ds \<subseteq> set directions" using ds by simp
  next
    fix m2 g2
    assume s: "maze_set m1 1 (y + 1) False = Inr m2"
    from maze_set_wf[OF m1(2), of 1 "y + 1"] y y2 obtain m2' where
      m2': "maze_set m1 1 (y + 1) False = Inr m2'" "wf_maze 3 h m2'"
        "opened m2' = insert (1, y + 1) (opened m1)"
      by auto
    with s have m2: "wf_maze 3 h m2" "opened m2 = insert (1, y + 1) (opened m1)" by simp_all
    show "carve_path n 3 h (m2, g2) 1 (y + 2) = Inl RecursionError"
    proof (rule Suc.IH[OF m2(1) h])
      show "odd (y + 2)" "0 < y + 2" "y + 2 < h - 1" using y y2 by simp_all
      show "y + 2 = 1 \<or> (1, y + 2 - 2) \<in> opened m2" by (simp add: m2(2) m1(3))
      show "\<forall>y'. y + 2 < y' \<longrightarrow> (1, y') \<notin> opened m2"
        using below by (simp add: m2(2) m1(3))
      show "int n < (h - (y + 2)) div 2" using fr by simp
    qed
  qed
  moreover have "(0, 2) \<in> set ds" unfolding ds by (simp add: directions_def)
  ultimately show ?case using m1(1) sh by simp
qed

lemma card_rooms:
  assumes "odd w" "odd h"
  shows "card (rooms w h) \<le> room_count w h"
proof -
  let ?A = "{0..<(w - 1) div 2} \<times> {0..<(h - 1) div 2}"
  let ?f = "\<lambda>(i, j). (2 * i + 1, 2 * j + 1) :: cell"
  have "rooms w h \<subseteq> ?f ` ?A"
  proof
    fix c assume c: "c \<in> rooms w h"
    obtain x y where xy: "c = (x, y)" by (cases c)
    from c have r: "0 \<le> x" "x < w" "0 \<le> y" "y < h" "odd x" "odd y"
      by (simp_all add: xy in_rooms)
    have i: "0 \<le> (x - 1) div 2" "(x - 1) div 2 < (w - 1) div 2" "x = 2 * ((x - 1) div 2) + 1"
      using r(1,2,5) assms(1) by presburger+
    have j: "0 \<le> (y - 1) div 2" "(y - 1) div 2 < (h - 1) div 2" "y = 2 * ((y - 1) div 2) + 1"
      using r(3,4,6) assms(2) by presburger+
    have "((x - 1) div 2, (y - 1) div 2) \<in> ?A" using i(1,2) j(1,2) by simp
    moreover have "c = ?f ((x - 1) div 2, (y - 1) div 2)" using i(3) j(3) by (simp add: xy)
    ultimately show "c \<in> ?f ` ?A" by (rule rev_image_eqI)
  qed
  then have "card (rooms w h) \<le> card (?f ` ?A)" by (intro card_mono) auto
  also have "\<dots> \<le> card ?A" by (intro card_image_le) simp
  also have "\<dots> = room_count w h" by (simp add: room_count_def)
  finally show ?thesis .
qed

lemma carve_enough:
  assumes dims: "odd w" "3 \<le> w" "odd h" "3 \<le> h" and n: "room_count w h \<le> n"
  shows "carve_path n w h (all_walls w h, g) 1 1 \<noteq> Inl RecursionError"
proof
  assume f: "carve_path n w h (all_walls w h, g) 1 1 = Inl RecursionError"
  have wf: "wf_maze w h (fst (all_walls w h, g))" using dims by (simp add: wf_all_walls)
  have st: "(1, 1) \<in> grid_cells w h" using dims by simp
  from carve_sound(1)[OF wf st, of n] f
  have "n \<le> card (rooms w h - insert (1, 1) (opened (all_walls w h)))" by simp
  also have "\<dots> < card (rooms w h - {})"
    using dims by (intro card_rooms_less[of "(1, 1)"]) (simp_all add: in_rooms opened_walls)
  also have "\<dots> \<le> room_count w h" using card_rooms[OF dims(1,3)] by simp
  finally show False using n by simp
qed

lemma carve_from_walls:
  assumes dims: "3 \<le> w" "3 \<le> h"
    and ne: "carve_path n w h (all_walls w h, g) 1 1 \<noteq> Inl RecursionError"
  obtains m1 g1 where "carve_path n w h (all_walls w h, g) 1 1 = Inr (m1, g1)"
    "wf_maze w h m1" "maze_inv w h (opened m1)"
    "\<And>x y. odd x \<Longrightarrow> odd y \<Longrightarrow> (x, y) \<in> grid_cells w h \<Longrightarrow> (x, y) \<in> opened m1"
proof -
  have wf: "wf_maze w h (fst (all_walls w h, g))" using dims by (simp add: wf_all_walls)
  have st: "(1, 1) \<in> grid_cells w h" using dims by simp
  from carve_sound(1)[OF wf st, of n] ne
  have "\<exists>m1 g1. carve_path n w h (all_walls w h, g) 1 1 = Inr (m1, g1) \<and> wf_maze w h m1
       \<and> (grow_step w h)\<^sup>*\<^sup>* (insert (1, 1) (opened (fst (all_walls w h, g)))) (opened m1)
       \<and> rooms_closed w h (opened m1) (opened m1 - (opened (fst (all_walls w h, g)) - {(1, 1)}))"
    by simp
  then obtain m1 g1 where
    r: "carve_path n w h (all_walls w h, g) 1 1 = Inr (m1, g1)" "wf_maze w h m1"
       "(grow_step w h)\<^sup>*\<^sup>* (insert (1, 1) (opened (fst (all_walls w h, g)))) (opened m1)"
       "rooms_closed w h (opened m1) (opened m1 - (opened (fst (all_walls w h, g)) - {(1, 1)}))"
    by (elim exE conjE) (rule that; assumption)
  from r(3) have g: "(grow_step w h)\<^sup>*\<^sup>* {(1, 1)} (opened m1)" by (simp add: opened_walls)
  from r(4) have cl: "rooms_closed w h (opened m1) (opened m1)" by (simp add: opened_walls)
  have inv: "maze_inv w h (opened m1)" using g maze_inv_start[OF dims] by (rule grows_inv)
  have s: "(1, 1) \<in> opened m1" using grows_mono[OF g] by blast
  show ?thesis
  proof (rule that[OF r(1,2) inv])
    fix x y :: int assume "odd x" "odd y" "(x, y) \<in> grid_cells w h"
    with cl s show "(x, y) \<in> opened m1" by (rule rooms_all_open)
  qed
qed

lemma entry_exit_tree:
  assumes dims: "odd w" "3 \<le> w" "odd h" "3 \<le> h" and inv: "maze_inv w h T"
    and rooms: "(1, 1) \<in> T" "(w - 2, h - 2) \<in> T"
  shows "tree_set (insert (w - 2, h - 1) (insert (1, 0) T))"
proof -
  from inv have sub: "T \<subseteq> grid_cells w h" and ok: "lattice_ok odd_room T" and tr: "tree_set T"
    by (simp_all add: maze_inv_def)
  have e1: "(1, 0) \<notin> T"
  proof
    assume "(1, 0) \<in> T"
    from lattice_okD[OF ok this] have "(1, 0 - 1) \<in> T" by simp
    with sub show False by auto
  qed
  have e2: "\<forall>n' \<in> T. adjacent (1, 0) n' \<longrightarrow> n' = (1, 1)"
  proof (intro ballI impI)
    fix n' assume n: "n' \<in> T" "adjacent (1, 0) n'"
    obtain a b where ab: "n' = (a, b)" by (cases n')
    from n(2)[unfolded ab adjacent_cases] consider "a = 1" "b = -1" | "a = 2" "b = 0"
      | "a = 1" "b = 1" | "a = 0" "b = 0" by auto
    then show "n' = (1, 1)"
    proof cases
      case 1 with n(1) sub ab show ?thesis by auto
    next
      case 2 with n(1) even_even_closed[OF ok, of 2 0] ab show ?thesis by simp
    next
      case 3 with ab show ?thesis by simp
    next
      case 4 with n(1) even_even_closed[OF ok, of 0 0] ab show ?thesis by simp
    qed
  qed
  have a1: "adjacent (1, 0) (1, 1)" by (simp add: adjacent_cases)
  have t1: "tree_set (insert (1, 0) T)" by (rule tree_set.leaf[OF tr e1 rooms(1) a1 e2])
  let ?T1 = "insert (1, 0) T"
  have x1: "(w - 2, h - 1) \<notin> ?T1"
  proof
    assume "(w - 2, h - 1) \<in> ?T1"
    with dims have "(w - 2, h - 1) \<in> T" by auto
    from lattice_okD[OF ok this] dims have "(w - 2, h - 1 + 1) \<in> T" by auto
    with sub show False by auto
  qed
  have x2: "\<forall>n' \<in> ?T1. adjacent (w - 2, h - 1) n' \<longrightarrow> n' = (w - 2, h - 2)"
  proof (intro ballI impI)
    fix n' assume n: "n' \<in> ?T1" "adjacent (w - 2, h - 1) n'"
    obtain a b where ab: "n' = (a, b)" by (cases n')
    from n(2)[unfolded ab adjacent_cases] consider "a = w - 2" "b = h - 2" | "a = w - 1" "b = h - 1"
      | "a = w - 2" "b = h" | "a = w - 3" "b = h - 1" by auto
    then show "n' = (w - 2, h - 2)"
    proof cases
      case 1 with ab show ?thesis by simp
    next
      case 2
      with n(1) ab dims have "(w - 1, h - 1) \<in> T" by auto
      with even_even_closed[OF ok, of "w - 1" "h - 1"] dims show ?thesis by simp
    next
      case 3
      with n(1) ab dims have "(w - 2, h) \<in> T" by auto
      with sub show ?thesis by auto
    next
      case 4
      with n(1) ab dims have "(w - 3, h - 1) \<in> T" by auto
      with even_even_closed[OF ok, of "w - 3" "h - 1"] dims show ?thesis by simp
    qed
  qed
  have a2: "adjacent (w - 2, h - 1) (w - 2, h - 2)" by (simp add: adjacent_cases)
  have r2: "(w - 2, h - 2) \<in> ?T1" using rooms(2) by simp
  show ?thesis by (rule tree_set.leaf[OF t1 x1 r2 a2 x2])
qed

lemma generate_carve_error:
  assumes "carve_path n (width self) (height self)
      (all_walls (width self) (height self), case seed of None \<Rightarrow> g | Some s \<Rightarrow> seeded s) 1 1
        = Inl e"
  shows "generate n seeded seed g hp self = Inl e"
  unfolding generate_def Let_def assms by simp

lemma generate_facts:
  assumes dims: "odd w" "3 \<le> w" "odd h" "3 \<le> h" and self: "width self = w" "height self = h"
    and nc: "carve_path n w h (all_walls w h, case seed of None \<Rightarrow> g | Some s \<Rightarrow> seeded s) 1 1
               \<noteq> Inl RecursionError"
  obtains g1 m3 p where
    "generate n seeded seed g hp self
       = Inr (g1, snd (new_list p hp), self\<lparr>u_maze := m3, u_solution_path := fst (new_list p hp)\<rparr>)"
    "wf_maze w h m3" "tree_set (opened m3)"
    "\<And>x y. odd x \<Longrightarrow> odd y \<Longrightarrow> (x, y) \<in> grid_cells w h \<Longrightarrow> (x, y) \<in> opened m3"
    "simple_path (opened m3) (1, 0) p (w - 2, h - 1)"
    "\<And>dirs. set dirs = set solver_directions \<Longrightarrow> find_solution_with dirs w h m3 = Inr p"
    "\<And>q. simple_path (opened m3) (1, 0) q (w - 2, h - 1) \<Longrightarrow> q = p"
proof -
  define g0 where "g0 = (case seed of None \<Rightarrow> g | Some s \<Rightarrow> seeded s)"
  from nc have nc0: "carve_path n w h (all_walls w h, g0) 1 1 \<noteq> Inl RecursionError"
    unfolding g0_def .
  obtain m1 g1 where c: "carve_path n w h (all_walls w h, g0) 1 1 = Inr (m1, g1)"
    "wf_maze w h m1" "maze_inv w h (opened m1)"
    "\<And>x y. odd x \<Longrightarrow> odd y \<Longrightarrow> (x, y) \<in> grid_cells w h \<Longrightarrow> (x, y) \<in> opened m1"
    using carve_from_walls[OF dims(2,4) nc0] by blast
  obtain m2 where m2: "maze_set m1 1 0 False = Inr m2" "wf_maze w h m2"
    "opened m2 = insert (1, 0) (opened m1)"
    using maze_set_wf[OF c(2), of 1 0] dims by auto
  obtain m3 where m3: "maze_set m2 (w - 2) (h - 1) False = Inr m3" "wf_maze w h m3"
    "opened m3 = insert (w - 2, h - 1) (opened m2)"
    using maze_set_wf[OF m2(2), of "w - 2" "h - 1"] dims by auto
  have op: "opened m3 = insert (w - 2, h - 1) (insert (1, 0) (opened m1))"
    by (simp add: m3(3) m2(3))
  have r1: "(1, 1) \<in> opened m1" using dims by (intro c(4)) simp_all
  have r2: "(w - 2, h - 2) \<in> opened m1" using dims by (intro c(4)) simp_all
  have tr: "tree_set (opened m3)" unfolding op
    by (rule entry_exit_tree[OF dims c(3) r1 r2])
  have "(1, 0) \<in> opened m3" "(w - 2, h - 1) \<in> opened m3" unfolding op by simp_all
  from tree_unique_path[OF tr this] obtain p where
    p: "simple_path (opened m3) (1, 0) p (w - 2, h - 1)"
       "\<And>q. simple_path (opened m3) (1, 0) q (w - 2, h - 1) \<Longrightarrow> q = p"
    by blast
  have fs: "find_solution_with dirs w h m3 = Inr p" if "set dirs = set solver_directions" for dirs
  proof -
    from find_solution_with_correct[OF m3(2) that p(1)] obtain q where
      q: "find_solution_with dirs w h m3 = Inr q" "simple_path (opened m3) (1, 0) q (w - 2, h - 1)"
      by blast
    from p(2)[OF q(2)] q(1) show ?thesis by simp
  qed
  have "find_solution w h m3 = Inr p" unfolding find_solution_def by (rule fs) simp
  then have gen: "generate n seeded seed g hp self
       = Inr (g1, snd (new_list p hp), self\<lparr>u_maze := m3, u_solution_path := fst (new_list p hp)\<rparr>)"
    unfolding generate_def self Let_def g0_def[symmetric]
    by (simp add: c(1) m2(1) m3(1) split: prod.split del: carve_path.simps)
  have rooms: "(x, y) \<in> opened m3" if "odd x" "odd y" "(x, y) \<in> grid_cells w h" for x y
    using c(4)[OF that] unfolding op by simp
  show ?thesis by (rule that[OF gen m3(2) tr rooms p(1) fs p(2)])
qed

lemma new_list_content [simp]: "list_at (snd (new_list p hp)) (fst (new_list p hp)) = p"
  by (simp add: new_list_def)

lemma returned_path_content: "returned_path hp self = list_at hp (u_solution_path self)"
  by (simp add: returned_path_def get_solution_path_def new_list_def)

lemma generate_facts_ex:
  assumes dims: "odd w" "3 \<le> w" "odd h" "3 \<le> h" and self: "width self = w" "height self = h"
    and nc: "carve_path n w h (all_walls w h, case seed of None \<Rightarrow> g | Some s \<Rightarrow> seeded s) 1 1
               \<noteq> Inl RecursionError"
  shows "\<exists>g1 m3 p.
    generate n seeded seed g hp self
       = Inr (g1, snd (new_list p hp), self\<lparr>u_maze := m3, u_solution_path := fst (new_list p hp)\<rparr>)
    \<and> wf_maze w h m3 \<and> tree_set (opened m3)
    \<and> (\<forall>x y. odd x \<and> odd y \<and> (x, y) \<in> grid_cells w h \<longrightarrow> (x, y) \<in> opened m3)
    \<and> simple_path (opened m3) (1, 0) p (w - 2, h - 1)
    \<and> (\<forall>dirs. set dirs = set solver_directions \<longrightarrow> find_solution_with dirs w h m3 = Inr p)
    \<and> (\<forall>q. simple_path (opened m3) (1, 0) q (w - 2, h - 1) \<longrightarrow> q = p)"
proof (rule generate_facts[OF assms, of hp])
  fix g1 m3 p
  assume a: "generate n seeded seed g hp self
       = Inr (g1, snd (new_list p hp), self\<lparr>u_maze := m3, u_solution_path := fst (new_list p hp)\<rparr>)"
    "wf_maze w h m3" "tree_set (opened m3)"
    "\<And>x y. odd x \<Longrightarrow> odd y \<Longrightarrow> (x, y) \<in> grid_cells w h \<Longrightarrow> (x, y) \<in> opened m3"
    "simple_path (opened m3) (1, 0) p (w - 2, h - 1)"
    "\<And>dirs. set dirs = set solver_directions \<Longrightarrow> find_solution_with dirs w h m3 = Inr p"
    "\<And>q. simple_path (opened m3) (1, 0) q (w - 2, h - 1) \<Longrightarrow> q = p"
  have r: "\<forall>x y. odd x \<and> odd y \<and> (x, y) \<in> grid_cells w h \<longrightarrow> (x, y) \<in> opened m3"
    using a(4) by blast
  have d: "\<forall>dirs. set dirs = set solver_directions \<longrightarrow> find_solution_with dirs w h m3 = Inr p"
    using a(6) by blast
  have u: "\<forall>q. simple_path (opened m3) (1, 0) q (w - 2, h - 1) \<longrightarrow> q = p"
    using a(7) by blast
  show ?thesis
    by (intro exI conjI) (rule a(1), rule a(2), rule a(3), rule r, rule a(5), rule d, rule u)
qed
text \<open>
  \<open>generate\<close> ends in one of two ways only: the carve ran out of frames, or everything
  succeeded. With a frame for every room it succeeds.
\<close>

lemma generate_completed:
  assumes dims: "odd (width self)" "3 \<le> width self" "odd (height self)" "3 \<le> height self"
    and ne: "generate n seeded seed g hp self \<noteq> Inl RecursionError"
  shows "\<exists>g1 m3 p.
    generate n seeded seed g hp self
       = Inr (g1, snd (new_list p hp), self\<lparr>u_maze := m3, u_solution_path := fst (new_list p hp)\<rparr>)
    \<and> wf_maze (width self) (height self) m3 \<and> tree_set (opened m3)
    \<and> (\<forall>x y. odd x \<and> odd y \<and> (x, y) \<in> grid_cells (width self) (height self)
           \<longrightarrow> (x, y) \<in> opened m3)
    \<and> simple_path (opened m3) (1, 0) p (width self - 2, height self - 1)
    \<and> (\<forall>dirs. set dirs = set solver_directions \<longrightarrow>
           find_solution_with dirs (width self) (height self) m3 = Inr p)
    \<and> (\<forall>q. simple_path (opened m3) (1, 0) q (width self - 2, height self - 1) \<longrightarrow> q = p)"
proof (rule generate_facts_ex[OF dims refl refl])
  show "carve_path n (width self) (height self)
      (all_walls (width self) (height self), case seed of None \<Rightarrow> g | Some s \<Rightarrow> seeded s) 1 1
        \<noteq> Inl RecursionError"
  proof
    assume "carve_path n (width self) (height self)
      (all_walls (width self) (height self), case seed of None \<Rightarrow> g | Some s \<Rightarrow> seeded s) 1 1
        = Inl RecursionError"
    then have "generate n seeded seed g hp self = Inl RecursionError"
      by (rule generate_carve_error)
    with ne show False by simp
  qed
qed

lemma generate_returns:
  assumes "odd (width self)" "3 \<le> width self" "odd (height self)" "3 \<le> height self"
    and "generate n seeded seed g hp self \<noteq> Inl RecursionError"
  shows "\<exists>g' hp' self'. generate n seeded seed g hp self = Inr (g', hp', self')"
  using generate_completed[OF assms] by (elim exE conjE) (intro exI, assumption)

lemma generate_enough:
  assumes "odd (width self)" "3 \<le> width self" "odd (height self)" "3 \<le> height self"
    and "room_count (width self) (height self) \<le> n"
  shows "\<exists>g' hp' self'. generate n seeded seed g hp self = Inr (g', hp', self')"
proof -
  have nc: "carve_path n (width self) (height self)
      (all_walls (width self) (height self), case seed of None \<Rightarrow> g | Some s \<Rightarrow> seeded s) 1 1
        \<noteq> Inl RecursionError"
    by (rule carve_enough[OF assms])
  from generate_facts_ex[OF assms(1-4) refl refl nc, where hp = hp]
  show ?thesis by (elim exE conjE) (intro exI, assumption)
qed

lemma generate_frames_le:
  assumes "generate n seeded seed g hp self \<noteq> Inl RecursionError" "n \<le> n'"
  shows "generate n' seeded seed g hp self = generate n seeded seed g hp self"
proof -
  let ?c = "\<lambda>k. carve_path k (width self) (height self)
      (all_walls (width self) (height self), case seed of None \<Rightarrow> g | Some s \<Rightarrow> seeded s) 1 1"
  have "?c n \<noteq> Inl RecursionError"
  proof
    assume "?c n = Inl RecursionError"
    then have "generate n seeded seed g hp self = Inl RecursionError"
      by (rule generate_carve_error)
    with assms(1) show False by simp
  qed
  then have "?c n' = ?c n" using assms(2) by (rule carve_path_frames_le)
  then show ?thesis unfolding generate_def Let_def by simp
qed

text \<open>
  On a grid of width 3, \<open>generate\<close> raises \<open>RecursionError\<close> whenever it has fewer frames
  than the column has rooms.
\<close>

lemma generate_column_runs_out:
  assumes "width self = 3" "odd (height self)" "3 \<le> height self"
    and "int n < (height self - 1) div 2"
  shows "generate n seeded seed g hp self = Inl RecursionError"
proof (rule generate_carve_error)
  have wf: "wf_maze 3 (height self) (all_walls 3 (height self))"
    using assms(3) by (simp add: wf_all_walls)
  show "carve_path n (width self) (height self)
      (all_walls (width self) (height self), case seed of None \<Rightarrow> g | Some s \<Rightarrow> seeded s) 1 1
        = Inl RecursionError"
    unfolding assms(1)
    using wf assms(2)
  proof (rule column_runs_out)
    show "odd (1::int)" "0 < (1::int)" by simp_all
    show "1 < height self - 1" using assms(2,3) by presburger
    show "(1::int) = 1 \<or> (1, 1 - 2) \<in> opened (all_walls 3 (height self))" by simp
    show "\<forall>y'. 1 < y' \<longrightarrow> (1, y') \<notin> opened (all_walls 3 (height self))"
      by (simp add: opened_walls)
    show "int n < (height self - 1) div 2" by (rule assms(4))
  qed
qed

lemma all_walls_3x3:
  "all_walls 3 3 = [[True, True, True], [True, True, True], [True, True, True]]"
  by (simp add: all_walls_def numeral_3_eq_3)

lemma carve_loop_all_out:
  "\<forall>d \<in> set ds. (x + fst d, y + snd d) \<notin> grid_cells w h \<Longrightarrow> carve_loop n w h s x y ds = Inr s"
proof (induction ds)
  case Nil
  then show ?case by (cases s) simp
next
  case (Cons d ds)
  obtain dx dy where d: "d = (dx, dy)" by (cases d)
  obtain m g where s: "s = (m, g)" by (cases s)
  from Cons.prems have out: "(x + dx, y + dy) \<notin> grid_cells w h" by (simp add: d)
  from Cons.prems have "\<forall>d \<in> set ds. (x + fst d, y + snd d) \<notin> grid_cells w h" by simp
  then have "carve_loop n w h s x y ds = Inr s" by (rule Cons.IH)
  then show ?case unfolding d s carve_loop_Cons using out by auto
qed

lemma carve_3x3:
  assumes "0 < n"
  shows "carve_path n 3 3 (all_walls 3 3, g) 1 1
     = Inr ([[True, True, True], [True, False, True], [True, True, True]],
            snd (shuffle g directions))"
proof -
  from assms obtain k where n: "n = Suc k" by (cases n) simp_all
  have set1: "maze_set (all_walls 3 3) 1 1 False
      = Inr [[True, True, True], [True, False, True], [True, True, True]]"
    by (simp add: all_walls_3x3 maze_set_def cell_index_def py_index_def)
  have out: "\<forall>d \<in> set (fst (shuffle g directions)). (1 + fst d, 1 + snd d) \<notin> grid_cells 3 3"
    unfolding set_shuffle by (simp add: directions_def)
  obtain ds g1 where sh: "shuffle g directions = (ds, g1)" by (cases "shuffle g directions")
  from out have "\<forall>d \<in> set ds. (1 + fst d, 1 + snd d) \<notin> grid_cells 3 3" by (simp add: sh)
  from carve_loop_all_out[OF this] show ?thesis by (simp add: n set1 sh)
qed

lemma find_solution_3x3:
  "find_solution 3 3 [[True, False, True], [True, False, True], [True, False, True]]
     = Inr [(1, 0), (1, 1), (1, 2)]"
  by (simp add: find_solution_def find_solution_with_def solver_directions_def explore_Cons
        maze_get_def cell_index_def py_index_def)

lemma opened_3x3_carved:
  "opened [[True, True, True], [True, False, True], [True, True, True]] = {(1, 1)}"
proof -
  have wf: "wf_maze 3 3 (all_walls 3 3)" by (simp add: wf_all_walls)
  from maze_set_wf[OF wf, of 1 1] obtain m' where
    m: "maze_set (all_walls 3 3) 1 1 False = Inr m'" "opened m' = insert (1, 1) (opened (all_walls 3 3))"
    by auto
  have "maze_set (all_walls 3 3) 1 1 False
      = Inr [[True, True, True], [True, False, True], [True, True, True]]"
    by (simp add: all_walls_3x3 maze_set_def cell_index_def py_index_def)
  with m show ?thesis by (simp add: opened_walls)
qed

lemma wf_3x3_carved: "wf_maze 3 3 [[True, True, True], [True, False, True], [True, True, True]]"
  by (simp add: wf_maze_def)

lemma opened_3x3_final:
  "opened [[True, False, True], [True, False, True], [True, False, True]] = {(1, 0), (1, 1), (1, 2)}"
proof -
  from maze_set_wf[OF wf_3x3_carved, of 1 0] obtain m2 where
    m2: "maze_set [[True, True, True], [True, False, True], [True, True, True]] 1 0 False = Inr m2"
      "wf_maze 3 3 m2"
      "opened m2 = insert (1, 0) (opened [[True, True, True], [True, False, True], [True, True, True]])"
    by auto
  have e2: "maze_set [[True, True, True], [True, False, True], [True, True, True]] 1 0 False
      = Inr [[True, False, True], [True, False, True], [True, True, True]]"
    by (simp add: maze_set_def cell_index_def py_index_def)
  from maze_set_wf[OF m2(2), of 1 2] obtain m3 where
    m3: "maze_set m2 1 2 False = Inr m3" "opened m3 = insert (1, 2) (opened m2)"
    by auto
  have e3: "maze_set [[True, False, True], [True, False, True], [True, True, True]] 1 2 False
      = Inr [[True, False, True], [True, False, True], [True, False, True]]"
    by (simp add: maze_set_def cell_index_def py_index_def numeral_2_eq_2)
  from m2 e2 have "m2 = [[True, False, True], [True, False, True], [True, True, True]]" by simp
  with m3 e3 have "m3 = [[True, False, True], [True, False, True], [True, False, True]]" by simp
  with m3(2) m2(3) show ?thesis by (auto simp: opened_3x3_carved)
qed

lemma appearance_or_default:
  "\<exists>v. appearance_or a (0.8, 0.8, 0.8) = Inr v" "\<exists>v. appearance_or a (1.0, 1.0, 0.0) = Inr v"
  by (cases a; simp add: appearance_or_def CubeAppearance_def)+

lemma MazeGenerator_ok:
  assumes "\<not> (w < 3 \<or> h < 3)" "\<not> (even w \<or> even h)"
  shows "\<exists>hp1 self. MazeGenerator w h wa pa sa hp = Inr (hp1, self) \<and> width self = w \<and> height self = h"
proof -
  obtain v1 where v1: "appearance_or wa (0.8, 0.8, 0.8) = Inr v1"
    using appearance_or_default(1) by blast
  obtain v2 where v2: "appearance_or sa (1.0, 1.0, 0.0) = Inr v2"
    using appearance_or_default(2) by blast
  show ?thesis using assms unfolding MazeGenerator_def v1 v2
    by (simp add: even_iff_mod_2_eq_zero split: prod.split)
qed

lemma str_small: "str_int 0 = ''0''" "str_int 3 = ''3''" "str_int 5 = ''5''"
  by (simp_all add: str_int_def digit_def)

lemma set_cube_out_of_bounds:
  "\<not> is_valid_position grid p \<Longrightarrow> set_cube grid p occupied a = (Inl (bounds_error grid p), grid)"
  by (simp add: set_cube_def)

lemma get_cube_out_of_bounds:
  "\<not> is_valid_position grid p \<Longrightarrow> get_cube grid p = (Inl (bounds_error grid p), grid)"
  by (simp add: get_cube_def)

lemma rel_sum_Inl_iff: "rel_sum (=) R a b \<Longrightarrow> a = Inl e \<longleftrightarrow> b = Inl e"
  by (cases a; cases b) auto

lemma generate_same_frames:
  assumes "width self1 = width self2" "height self1 = height self2"
  shows "rel_sum (=)
          (\<lambda>(g1', hp1', s1') (g2', hp2', s2').
              u_maze s1' = u_maze s2' \<and>
              returned_path hp1' s1' = returned_path hp2' s2')
          (generate n seeded (Some seed) g1 hp1 self1)
          (generate n seeded (Some seed) g2 hp2 self2)"
proof -
  let ?w = "width self2" and ?h = "height self2"
  let ?c = "carve_path n ?w ?h (all_walls ?w ?h, seeded seed) 1 1"
  show ?thesis
  proof (cases ?c)
    case (Inl e)
    then show ?thesis unfolding generate_def assms Let_def by simp
  next
    case (Inr s)
    obtain m1 g' where s: "s = (m1, g')" by (cases s)
    show ?thesis
    proof (cases "maze_set m1 1 0 False")
      case e: (Inl e)
      with Inr s show ?thesis unfolding generate_def assms Let_def by simp
    next
      case m2: (Inr m2)
      show ?thesis
      proof (cases "maze_set m2 (?w - 2) (?h - 1) False")
        case e: (Inl e)
        with Inr s m2 show ?thesis unfolding generate_def assms Let_def by simp
      next
        case m3: (Inr m3)
        show ?thesis
        proof (cases "find_solution ?w ?h m3")
          case e: (Inl e)
          with Inr s m2 m3 show ?thesis unfolding generate_def assms Let_def by simp
        next
          case p: (Inr p)
          with Inr s m2 m3 show ?thesis unfolding generate_def assms Let_def
            by (simp add: returned_path_content new_list_def)
        qed
      qed
    qed
  qed
qed
lemma room_count_examples:
  "room_count 7 5 = 6" "room_count 5 7 = 6" "room_count 5 5 = 4" "room_count 3 2001 = 1000"
  by (simp_all add: room_count_def)

section \<open>Properties\<close>

text \<open>
  C1, as the code has it. For every odd width and height of at least 3, every seed (or
  none) and every state of the generator, \<open>generate\<close> never reports a generation
  failure: it raises no \<open>RuntimeError\<close> of the source, so the branch
  "No solution path found" of \<open>_find_solution\<close> is not taken, and it either returns
  normally or raises the interpreter's \<open>RecursionError\<close> out of the recursive carve. It
  returns normally whenever the recursion limit leaves a frame for every room of the grid,
  \<open>((width - 1) div 2) * ((height - 1) div 2)\<close> of them.
\<close>

theorem generate_fails_only_by_recursion:
  assumes "odd (width self)" "3 \<le> width self" "odd (height self)" "3 \<le> height self"
  shows "(generate frames seeded seed g hp self = Inl RecursionError
            \<or> (\<exists>g' hp' self'. generate frames seeded seed g hp self = Inr (g', hp', self')))
       \<and> (\<forall>msg. generate frames seeded seed g hp self \<noteq> Inl (RuntimeError msg))
       \<and> (room_count (width self) (height self) \<le> frames \<longrightarrow>
            (\<exists>g' hp' self'. generate frames seeded seed g hp self = Inr (g', hp', self')))"
proof -
  have a: "generate frames seeded seed g hp self = Inl RecursionError
            \<or> (\<exists>g' hp' self'. generate frames seeded seed g hp self = Inr (g', hp', self'))"
    using generate_returns[OF assms, of frames seeded seed g hp] by blast
  from a have b: "\<forall>msg. generate frames seeded seed g hp self \<noteq> Inl (RuntimeError msg)"
    by auto
  have c: "room_count (width self) (height self) \<le> frames \<longrightarrow>
            (\<exists>g' hp' self'. generate frames seeded seed g hp self = Inr (g', hp', self'))"
    using generate_enough[OF assms] by blast
  from a b c show ?thesis by (intro conjI)
qed

theorem generate_fails_only_by_recursion_witness:
  "odd (width (example_generator 7 5)) \<and> 3 \<le> width (example_generator 7 5)
   \<and> odd (height (example_generator 7 5)) \<and> 3 \<le> height (example_generator 7 5)
   \<and> room_count (width (example_generator 7 5)) (height (example_generator 7 5)) \<le> 6
   \<and> (\<exists>g' hp' self'. generate 6 example_seeded (Some 42) zero_rng example_heap (example_generator 7 5) = Inr (g', hp', self'))
   \<and> (\<forall>msg. generate 6 example_seeded (Some 42) zero_rng example_heap (example_generator 7 5) \<noteq> Inl (RuntimeError msg))"
proof -
  have h: "odd (width (example_generator 7 5))" "3 \<le> width (example_generator 7 5)"
    "odd (height (example_generator 7 5))" "3 \<le> height (example_generator 7 5)"
    by (simp_all add: example_generator_def)
  have r: "room_count (width (example_generator 7 5)) (height (example_generator 7 5)) \<le> 6"
    by (simp add: example_generator_def room_count_examples)
  note t = generate_fails_only_by_recursion[OF h, of 6 example_seeded "Some 42" zero_rng example_heap]
  from t r have c: "\<exists>g' hp' self'. generate 6 example_seeded (Some 42) zero_rng example_heap (example_generator 7 5) = Inr (g', hp', self')"
    by blast
  from t have d: "\<forall>msg. generate 6 example_seeded (Some 42) zero_rng example_heap (example_generator 7 5) \<noteq> Inl (RuntimeError msg)"
    by blast
  show ?thesis by (intro conjI h r c d)
qed

text \<open>
  The claim as the specification words it, that \<open>generate\<close> completes for every valid
  size, fails on a grid of 3 by 2001: its single column of 1000 rooms takes 1000 nested
  activations of \<open>_carve_path\<close> whatever the shuffle, and the default recursion limit of
  1000 leaves fewer than 1000 frames at the call.
\<close>

theorem generate_recursion_counterexample:
  "odd (width (example_generator 3 2001)) \<and> 3 \<le> width (example_generator 3 2001)
   \<and> odd (height (example_generator 3 2001)) \<and> 3 \<le> height (example_generator 3 2001)
   \<and> generate 999 example_seeded (Some 0) zero_rng example_heap (example_generator 3 2001)
        = Inl RecursionError
   \<and> \<not> (\<exists>g' hp' self'. generate 999 example_seeded (Some 0) zero_rng example_heap
             (example_generator 3 2001) = Inr (g', hp', self'))"
proof -
  have h: "odd (width (example_generator 3 2001))" "3 \<le> width (example_generator 3 2001)"
    "odd (height (example_generator 3 2001))" "3 \<le> height (example_generator 3 2001)"
    by (simp_all add: example_generator_def)
  have w: "width (example_generator 3 2001) = 3" by (simp add: example_generator_def)
  have n: "int 999 < (height (example_generator 3 2001) - 1) div 2"
    by (simp add: example_generator_def)
  have e: "generate 999 example_seeded (Some 0) zero_rng example_heap (example_generator 3 2001)
        = Inl RecursionError"
    using w h(3,4) n by (rule generate_column_runs_out)
  then have f: "\<not> (\<exists>g' hp' self'. generate 999 example_seeded (Some 0) zero_rng example_heap
             (example_generator 3 2001) = Inr (g', hp', self'))"
    by simp
  show ?thesis by (intro conjI h e f)
qed

text \<open>
  C2. For every odd width and height of at least 3 and every seed, whenever \<open>generate\<close>
  does not run out of frames (as when there is a frame for every room), it returns, the
  open cells form a tree under 4-adjacency that contains every cell with two odd
  coordinates; there is exactly one simple path from the entry \<open>(1, 0)\<close> to the exit
  \<open>(width - 2, height - 1)\<close>; and the search returns that path, the stored solution,
  whatever the order in which it tries the four neighbour directions.
\<close>

theorem unique_solution_path:
  assumes "odd (width self)" "3 \<le> width self" "odd (height self)" "3 \<le> height self"
    and "room_count (width self) (height self) \<le> frames
         \<or> generate frames seeded seed g hp self \<noteq> Inl RecursionError"
  shows "\<exists>g' hp' self'. generate frames seeded seed g hp self = Inr (g', hp', self')
      \<and> tree_set (opened (u_maze self'))
      \<and> (\<forall>x y. odd x \<and> odd y \<and> (x, y) \<in> grid_cells (width self) (height self)
             \<longrightarrow> (x, y) \<in> opened (u_maze self'))
      \<and> (\<exists>!p. simple_path (opened (u_maze self')) (1, 0) p (width self - 2, height self - 1))
      \<and> (\<forall>dirs. set dirs = set solver_directions \<longrightarrow>
            find_solution_with dirs (width self) (height self) (u_maze self')
              = Inr (list_at hp' (u_solution_path self')))"
proof -
  have ne: "generate frames seeded seed g hp self \<noteq> Inl RecursionError"
    using assms(5) generate_enough[OF assms(1-4), of frames seeded seed g hp] by auto
  from generate_completed[OF assms(1-4) ne]
  obtain g1 m3 p where f:
    "generate frames seeded seed g hp self
       = Inr (g1, snd (new_list p hp), self\<lparr>u_maze := m3, u_solution_path := fst (new_list p hp)\<rparr>)"
    "wf_maze (width self) (height self) m3" "tree_set (opened m3)"
    "\<forall>x y. odd x \<and> odd y \<and> (x, y) \<in> grid_cells (width self) (height self) \<longrightarrow> (x, y) \<in> opened m3"
    "simple_path (opened m3) (1, 0) p (width self - 2, height self - 1)"
    "\<forall>dirs. set dirs = set solver_directions \<longrightarrow>
        find_solution_with dirs (width self) (height self) m3 = Inr p"
    "\<forall>q. simple_path (opened m3) (1, 0) q (width self - 2, height self - 1) \<longrightarrow> q = p"
    by (elim exE conjE) (rule that; assumption)
  have u: "\<exists>!q. simple_path (opened m3) (1, 0) q (width self - 2, height self - 1)"
  proof (rule ex1I[of _ p])
    show "simple_path (opened m3) (1, 0) p (width self - 2, height self - 1)" by (rule f(5))
  next
    fix q assume "simple_path (opened m3) (1, 0) q (width self - 2, height self - 1)"
    with f(7) show "q = p" by blast
  qed
  show ?thesis
  proof (intro exI conjI)
    show "generate frames seeded seed g hp self
       = Inr (g1, snd (new_list p hp), self\<lparr>u_maze := m3, u_solution_path := fst (new_list p hp)\<rparr>)"
      by (rule f(1))
    show "tree_set (opened (u_maze (self\<lparr>u_maze := m3, u_solution_path := fst (new_list p hp)\<rparr>)))"
      using f(3) by simp
    show "\<forall>x y. odd x \<and> odd y \<and> (x, y) \<in> grid_cells (width self) (height self)
             \<longrightarrow> (x, y) \<in> opened (u_maze (self\<lparr>u_maze := m3, u_solution_path := fst (new_list p hp)\<rparr>))"
      using f(4) by simp
    show "\<exists>!q. simple_path (opened (u_maze (self\<lparr>u_maze := m3, u_solution_path := fst (new_list p hp)\<rparr>)))
        (1, 0) q (width self - 2, height self - 1)"
      using u by simp
    show "\<forall>dirs. set dirs = set solver_directions \<longrightarrow>
            find_solution_with dirs (width self) (height self)
               (u_maze (self\<lparr>u_maze := m3, u_solution_path := fst (new_list p hp)\<rparr>))
              = Inr (list_at (snd (new_list p hp))
                  (u_solution_path (self\<lparr>u_maze := m3, u_solution_path := fst (new_list p hp)\<rparr>)))"
      using f(6) by simp
  qed
qed

theorem unique_solution_path_witness:
  "odd (width (example_generator 7 5)) \<and> 3 \<le> width (example_generator 7 5)
   \<and> odd (height (example_generator 7 5)) \<and> 3 \<le> height (example_generator 7 5)
   \<and> room_count (width (example_generator 7 5)) (height (example_generator 7 5)) \<le> 6
   \<and> (\<exists>g' hp' self'. generate 6 example_seeded (Some 42) zero_rng example_heap (example_generator 7 5) = Inr (g', hp', self')
      \<and> tree_set (opened (u_maze self'))
      \<and> (\<forall>x y. odd x \<and> odd y \<and> (x, y) \<in> grid_cells (width (example_generator 7 5)) (height (example_generator 7 5))
             \<longrightarrow> (x, y) \<in> opened (u_maze self'))
      \<and> (\<exists>!p. simple_path (opened (u_maze self')) (1, 0) p (width (example_generator 7 5) - 2, height (example_generator 7 5) - 1))
      \<and> (\<forall>dirs. set dirs = set solver_directions \<longrightarrow>
            find_solution_with dirs (width (example_generator 7 5)) (height (example_generator 7 5)) (u_maze self')
              = Inr (list_at hp' (u_solution_path self'))))"
proof -
  have h: "odd (width (example_generator 7 5))" "3 \<le> width (example_generator 7 5)"
    "odd (height (example_generator 7 5))" "3 \<le> height (example_generator 7 5)"
    by (simp_all add: example_generator_def)
  have r: "room_count (width (example_generator 7 5)) (height (example_generator 7 5)) \<le> 6"
    by (simp add: example_generator_def room_count_examples)
  have c: "\<exists>g' hp' self'. generate 6 example_seeded (Some 42) zero_rng example_heap (example_generator 7 5) = Inr (g', hp', self')
      \<and> tree_set (opened (u_maze self'))
      \<and> (\<forall>x y. odd x \<and> odd y \<and> (x, y) \<in> grid_cells (width (example_generator 7 5)) (height (example_generator 7 5))
             \<longrightarrow> (x, y) \<in> opened (u_maze self'))
      \<and> (\<exists>!p. simple_path (opened (u_maze self')) (1, 0) p (width (example_generator 7 5) - 2, height (example_generator 7 5) - 1))
      \<and> (\<forall>dirs. set dirs = set solver_directions \<longrightarrow>
            find_solution_with dirs (width (example_generator 7 5)) (height (example_generator 7 5)) (u_maze self')
              = Inr (list_at hp' (u_solution_path self')))"
    by (rule unique_solution_path[OF h disjI1[OF r]])
  show ?thesis by (intro conjI h r c)
qed

text \<open>
  C3. For every generated maze, that is whenever \<open>generate\<close> does not run out of frames,
  the list returned by \<open>get_solution_path\<close> has only open cells of the wall field,
  consecutive cells at Manhattan distance exactly 1, first element \<open>(1, 0)\<close>, last element
  \<open>(width - 2, height - 1)\<close>, and no cell twice.
\<close>

theorem solution_path_valid:
  assumes "odd (width self)" "3 \<le> width self" "odd (height self)" "3 \<le> height self"
    and "room_count (width self) (height self) \<le> frames
         \<or> generate frames seeded seed g hp self \<noteq> Inl RecursionError"
  shows "\<exists>g' hp' self' p. generate frames seeded seed g hp self = Inr (g', hp', self')
      \<and> returned_path hp' self' = p
      \<and> (\<forall>(x, y) \<in> set p. maze_get (u_maze self') x y = Inr False)
      \<and> successively adjacent p
      \<and> p \<noteq> [] \<and> hd p = (1, 0) \<and> last p = (width self - 2, height self - 1)
      \<and> distinct p"
proof -
  have ne: "generate frames seeded seed g hp self \<noteq> Inl RecursionError"
    using assms(5) generate_enough[OF assms(1-4), of frames seeded seed g hp] by auto
  from generate_completed[OF assms(1-4) ne]
  obtain g1 m3 p where f:
    "generate frames seeded seed g hp self
       = Inr (g1, snd (new_list p hp), self\<lparr>u_maze := m3, u_solution_path := fst (new_list p hp)\<rparr>)"
    "wf_maze (width self) (height self) m3"
    "simple_path (opened m3) (1, 0) p (width self - 2, height self - 1)"
    by (elim exE conjE) (rule that; assumption)
  let ?hp' = "snd (new_list p hp)"
  let ?self' = "self\<lparr>u_maze := m3, u_solution_path := fst (new_list p hp)\<rparr>"
  note d = simple_pathD[OF f(3)]
  have open_cells: "\<forall>(x, y) \<in> set p. maze_get (u_maze ?self') x y = Inr False"
  proof (clarify)
    fix x y assume "(x, y) \<in> set p"
    with d(4) have o: "(x, y) \<in> opened m3" by blast
    with opened_subset_grid[OF f(2)] have "(x, y) \<in> grid_cells (width self) (height self)"
      by blast
    then show "maze_get (u_maze ?self') x y = Inr False"
      using maze_get_wf[OF f(2), of x y] o by simp
  qed
  have c: "returned_path ?hp' ?self' = p"
    by (simp add: returned_path_content)
  show ?thesis
  proof (intro exI conjI)
    show "generate frames seeded seed g hp self = Inr (g1, ?hp', ?self')" by (rule f(1))
    show "returned_path ?hp' ?self' = p" by (rule c)
    show "\<forall>(x, y) \<in> set p. maze_get (u_maze ?self') x y = Inr False" by (rule open_cells)
    show "successively adjacent p" by (rule d(5))
    show "p \<noteq> []" by (rule d(1))
    show "hd p = (1, 0)" by (rule d(2))
    show "last p = (width self - 2, height self - 1)" by (rule d(3))
    show "distinct p" by (rule d(6))
  qed
qed

theorem solution_path_valid_witness:
  "odd (width (example_generator 7 5)) \<and> 3 \<le> width (example_generator 7 5)
   \<and> odd (height (example_generator 7 5)) \<and> 3 \<le> height (example_generator 7 5)
   \<and> room_count (width (example_generator 7 5)) (height (example_generator 7 5)) \<le> 6
   \<and> (\<exists>g' hp' self' p. generate 6 example_seeded (Some 42) zero_rng example_heap (example_generator 7 5) = Inr (g', hp', self')
      \<and> returned_path hp' self' = p
      \<and> (\<forall>(x, y) \<in> set p. maze_get (u_maze self') x y = Inr False)
      \<and> successively adjacent p
      \<and> p \<noteq> [] \<and> hd p = (1, 0) \<and> last p = (width (example_generator 7 5) - 2, height (example_generator 7 5) - 1)
      \<and> distinct p)"
proof -
  have h: "odd (width (example_generator 7 5))" "3 \<le> width (example_generator 7 5)"
    "odd (height (example_generator 7 5))" "3 \<le> height (example_generator 7 5)"
    by (simp_all add: example_generator_def)
  have r: "room_count (width (example_generator 7 5)) (height (example_generator 7 5)) \<le> 6"
    by (simp add: example_generator_def room_count_examples)
  have c: "\<exists>g' hp' self' p. generate 6 example_seeded (Some 42) zero_rng example_heap (example_generator 7 5) = Inr (g', hp', self')
      \<and> returned_path hp' self' = p
      \<and> (\<forall>(x, y) \<in> set p. maze_get (u_maze self') x y = Inr False)
      \<and> successively adjacent p
      \<and> p \<noteq> [] \<and> hd p = (1, 0) \<and> last p = (width (example_generator 7 5) - 2, height (example_generator 7 5) - 1)
      \<and> distinct p"
    by (rule solution_path_valid[OF h disjI1[OF r]])
  show ?thesis by (intro conjI h r c)
qed

text \<open>
  C4. Reproducibility: two calls of \<open>generate\<close> with the same seed, on generators of equal
  width and height, end alike whatever the earlier state of the random generator, of the
  store and of the two objects: either both raise the same error, or both return with equal
  wall fields and with equal lists from \<open>get_solution_path\<close>. The two calls have the same
  room on the call stack, or neither runs out of frames.
\<close>

theorem generate_reproducible:
  assumes "width self1 = width self2" "height self1 = height self2"
    and "frames1 = frames2
         \<or> (generate frames1 seeded (Some seed) g1 hp1 self1 \<noteq> Inl RecursionError
            \<and> generate frames2 seeded (Some seed) g2 hp2 self2 \<noteq> Inl RecursionError)"
  shows "rel_sum (=)
          (\<lambda>(g1', hp1', s1') (g2', hp2', s2').
              u_maze s1' = u_maze s2' \<and>
              returned_path hp1' s1' = returned_path hp2' s2')
          (generate frames1 seeded (Some seed) g1 hp1 self1)
          (generate frames2 seeded (Some seed) g2 hp2 self2)"
proof (cases "frames1 = frames2")
  case True
  then show ?thesis using generate_same_frames[OF assms(1,2)] by simp
next
  case False
  with assms(3) have ne:
    "generate frames1 seeded (Some seed) g1 hp1 self1 \<noteq> Inl RecursionError"
    "generate frames2 seeded (Some seed) g2 hp2 self2 \<noteq> Inl RecursionError"
    by simp_all
  show ?thesis
  proof (cases "frames1 \<le> frames2")
    case True
    note s = generate_same_frames[OF assms(1,2), of frames1 seeded seed g1 hp1 g2 hp2]
    from rel_sum_Inl_iff[OF s, of RecursionError] ne(1)
    have "generate frames1 seeded (Some seed) g2 hp2 self2 \<noteq> Inl RecursionError" by simp
    from generate_frames_le[OF this True] s show ?thesis by simp
  next
    case False
    then have le: "frames2 \<le> frames1" by simp
    note s = generate_same_frames[OF assms(1,2), of frames2 seeded seed g1 hp1 g2 hp2]
    from rel_sum_Inl_iff[OF s, of RecursionError] ne(2)
    have "generate frames2 seeded (Some seed) g1 hp1 self1 \<noteq> Inl RecursionError" by simp
    from generate_frames_le[OF this le] s show ?thesis by simp
  qed
qed

theorem generate_reproducible_witness:
  "width (example_generator 5 5) = width ((example_generator 5 5)\<lparr>u_maze := [], u_solution_path := 3\<rparr>)
   \<and> height (example_generator 5 5) = height ((example_generator 5 5)\<lparr>u_maze := [], u_solution_path := 3\<rparr>)
   \<and> generate 4 example_seeded (Some 123) zero_rng example_heap (example_generator 5 5)
        \<noteq> Inl RecursionError
   \<and> generate 900 example_seeded (Some 123) (example_seeded 9) (mutate_list 3 [(0, 0)] example_heap)
             ((example_generator 5 5)\<lparr>u_maze := [], u_solution_path := 3\<rparr>) \<noteq> Inl RecursionError
   \<and> rel_sum (=)
          (\<lambda>(g1', hp1', s1') (g2', hp2', s2').
              u_maze s1' = u_maze s2' \<and>
              returned_path hp1' s1' = returned_path hp2' s2')
          (generate 4 example_seeded (Some 123) zero_rng example_heap (example_generator 5 5))
          (generate 900 example_seeded (Some 123) (example_seeded 9) (mutate_list 3 [(0, 0)] example_heap)
             ((example_generator 5 5)\<lparr>u_maze := [], u_solution_path := 3\<rparr>))"
proof -
  let ?s1 = "example_generator 5 5"
  let ?s2 = "(example_generator 5 5)\<lparr>u_maze := [], u_solution_path := 3\<rparr>"
  have h: "width ?s1 = width ?s2" "height ?s1 = height ?s2"
    by simp_all
  have d1: "odd (width ?s1)" "3 \<le> width ?s1" "odd (height ?s1)" "3 \<le> height ?s1"
    "room_count (width ?s1) (height ?s1) \<le> 4"
    by (simp_all add: example_generator_def room_count_examples)
  have d2: "odd (width ?s2)" "3 \<le> width ?s2" "odd (height ?s2)" "3 \<le> height ?s2"
    "room_count (width ?s2) (height ?s2) \<le> 900"
    by (simp_all add: example_generator_def room_count_examples)
  have n1: "generate 4 example_seeded (Some 123) zero_rng example_heap ?s1 \<noteq> Inl RecursionError"
    using generate_enough[OF d1, of example_seeded "Some 123" zero_rng example_heap] by auto
  have n2: "generate 900 example_seeded (Some 123) (example_seeded 9)
              (mutate_list 3 [(0, 0)] example_heap) ?s2 \<noteq> Inl RecursionError"
    using generate_enough[OF d2, of example_seeded "Some 123" "example_seeded 9"
        "mutate_list 3 [(0, 0)] example_heap"] by auto
  show ?thesis
    by (intro conjI h n1 n2 generate_reproducible[OF h disjI2[OF conjI[OF n1 n2]]])
qed

text \<open>
  C5. The constructor raises ValueError exactly when the width or the height is below 3
  (message "must be at least 3x3") or, both being at least 3, one of them is even (message
  "must be odd numbers"); an error leaves no object; \<open>generate\<close> on a constructed object
  raises no configuration error: it returns normally or raises \<open>RecursionError\<close>, and it
  returns normally when there is a frame for every room. Widths 1 and 2 and height 2 raise
  the first error, width 4 raises one of the two.
\<close>

theorem constructor_validation:
  "(w < 3 \<or> h < 3 \<longrightarrow>
      MazeGenerator w h wa pa sa hp = Inl (ValueError ''Maze dimensions must be at least 3x3''))
   \<and> (\<not> (w < 3 \<or> h < 3) \<and> (even w \<or> even h) \<longrightarrow>
      MazeGenerator w h wa pa sa hp = Inl (ValueError ''Maze dimensions must be odd numbers''))
   \<and> ((\<exists>e. MazeGenerator w h wa pa sa hp = Inl e) \<longleftrightarrow> (w < 3 \<or> h < 3 \<or> even w \<or> even h))
   \<and> (\<forall>hp1 self. MazeGenerator w h wa pa sa hp = Inr (hp1, self) \<longrightarrow>
         width self = w \<and> height self = h \<and>
         (\<forall>frames seeded seed g hp2.
            (generate frames seeded seed g hp2 self = Inl RecursionError
               \<or> (\<exists>r. generate frames seeded seed g hp2 self = Inr r))
            \<and> (\<forall>msg. generate frames seeded seed g hp2 self \<noteq> Inl (ValueError msg))
            \<and> (room_count w h \<le> frames \<longrightarrow>
                 (\<exists>r. generate frames seeded seed g hp2 self = Inr r))))
   \<and> MazeGenerator 1 h wa pa sa hp = Inl (ValueError ''Maze dimensions must be at least 3x3'')
   \<and> MazeGenerator 2 h wa pa sa hp = Inl (ValueError ''Maze dimensions must be at least 3x3'')
   \<and> (\<exists>msg. MazeGenerator 4 h wa pa sa hp = Inl (ValueError msg))
   \<and> MazeGenerator w 2 wa pa sa hp = Inl (ValueError ''Maze dimensions must be at least 3x3'')"
proof (intro conjI)
  show small: "w < 3 \<or> h < 3 \<longrightarrow>
      MazeGenerator w h wa pa sa hp = Inl (ValueError ''Maze dimensions must be at least 3x3'')"
    by (simp add: MazeGenerator_def)
  show ev: "\<not> (w < 3 \<or> h < 3) \<and> (even w \<or> even h) \<longrightarrow>
      MazeGenerator w h wa pa sa hp = Inl (ValueError ''Maze dimensions must be odd numbers'')"
    by (auto simp: MazeGenerator_def even_iff_mod_2_eq_zero)
  show "(\<exists>e. MazeGenerator w h wa pa sa hp = Inl e) \<longleftrightarrow> (w < 3 \<or> h < 3 \<or> even w \<or> even h)"
  proof
    assume l: "\<exists>e. MazeGenerator w h wa pa sa hp = Inl e"
    show "w < 3 \<or> h < 3 \<or> even w \<or> even h"
    proof (rule ccontr)
      assume "\<not> (w < 3 \<or> h < 3 \<or> even w \<or> even h)"
      then have "\<not> (w < 3 \<or> h < 3)" "\<not> (even w \<or> even h)" by simp_all
      from MazeGenerator_ok[OF this, of wa pa sa hp] l show False by auto
    qed
  next
    assume "w < 3 \<or> h < 3 \<or> even w \<or> even h"
    then show "\<exists>e. MazeGenerator w h wa pa sa hp = Inl e" using small ev by blast
  qed
  show "\<forall>hp1 self. MazeGenerator w h wa pa sa hp = Inr (hp1, self) \<longrightarrow>
         width self = w \<and> height self = h \<and>
         (\<forall>frames seeded seed g hp2.
            (generate frames seeded seed g hp2 self = Inl RecursionError
               \<or> (\<exists>r. generate frames seeded seed g hp2 self = Inr r))
            \<and> (\<forall>msg. generate frames seeded seed g hp2 self \<noteq> Inl (ValueError msg))
            \<and> (room_count w h \<le> frames \<longrightarrow>
                 (\<exists>r. generate frames seeded seed g hp2 self = Inr r)))"
  proof (intro allI impI)
    fix hp1 self assume c: "MazeGenerator w h wa pa sa hp = Inr (hp1, self)"
    from c small ev have ok: "\<not> (w < 3 \<or> h < 3)" "\<not> (even w \<or> even h)" by auto
    from MazeGenerator_ok[OF ok, of wa pa sa hp] c have wh: "width self = w" "height self = h"
      by auto
    from ok wh have dims: "odd (width self)" "3 \<le> width self" "odd (height self)"
      "3 \<le> height self" by auto
    have g: "(generate frames seeded seed g hp2 self = Inl RecursionError
               \<or> (\<exists>r. generate frames seeded seed g hp2 self = Inr r))
            \<and> (\<forall>msg. generate frames seeded seed g hp2 self \<noteq> Inl (ValueError msg))
            \<and> (room_count w h \<le> frames \<longrightarrow>
                 (\<exists>r. generate frames seeded seed g hp2 self = Inr r))"
      for frames seeded seed g hp2
    proof -
      have a: "generate frames seeded seed g hp2 self = Inl RecursionError
               \<or> (\<exists>r. generate frames seeded seed g hp2 self = Inr r)"
        using generate_returns[OF dims, of frames seeded seed g hp2] by blast
      from a have b: "\<forall>msg. generate frames seeded seed g hp2 self \<noteq> Inl (ValueError msg)"
        by auto
      have e: "room_count w h \<le> frames \<longrightarrow>
                 (\<exists>r. generate frames seeded seed g hp2 self = Inr r)"
        using generate_enough[OF dims, of frames seeded seed g hp2] wh by blast
      from a b e show ?thesis by (intro conjI)
    qed
    show "width self = w \<and> height self = h \<and>
         (\<forall>frames seeded seed g hp2.
            (generate frames seeded seed g hp2 self = Inl RecursionError
               \<or> (\<exists>r. generate frames seeded seed g hp2 self = Inr r))
            \<and> (\<forall>msg. generate frames seeded seed g hp2 self \<noteq> Inl (ValueError msg))
            \<and> (room_count w h \<le> frames \<longrightarrow>
                 (\<exists>r. generate frames seeded seed g hp2 self = Inr r)))"
      by (intro conjI allI wh g[THEN conjunct1] g[THEN conjunct2, THEN conjunct1]
            g[THEN conjunct2, THEN conjunct2])
  qed
  show "MazeGenerator 1 h wa pa sa hp = Inl (ValueError ''Maze dimensions must be at least 3x3'')"
    by (simp add: MazeGenerator_def)
  show "MazeGenerator 2 h wa pa sa hp = Inl (ValueError ''Maze dimensions must be at least 3x3'')"
    by (simp add: MazeGenerator_def)
  show "\<exists>msg. MazeGenerator 4 h wa pa sa hp = Inl (ValueError msg)"
    by (simp add: MazeGenerator_def)
  show "MazeGenerator w 2 wa pa sa hp = Inl (ValueError ''Maze dimensions must be at least 3x3'')"
    by (simp add: MazeGenerator_def)
qed

theorem constructor_validation_witness:
  "MazeGenerator 4 5 None None None example_heap
      = Inl (ValueError ''Maze dimensions must be odd numbers'')
   \<and> MazeGenerator 5 2 None None None example_heap
      = Inl (ValueError ''Maze dimensions must be at least 3x3'')
   \<and> room_count 5 7 \<le> 6
   \<and> (\<exists>hp1 self. MazeGenerator 5 7 None None None example_heap = Inr (hp1, self)
         \<and> width self = 5 \<and> height self = 7
         \<and> (\<exists>r. generate 6 example_seeded (Some 1) zero_rng hp1 self = Inr r)
         \<and> (\<forall>msg. generate 6 example_seeded (Some 1) zero_rng hp1 self \<noteq> Inl (ValueError msg)))"
proof -
  have a: "MazeGenerator 4 5 None None None example_heap
      = Inl (ValueError ''Maze dimensions must be odd numbers'')"
    using constructor_validation[of 4 5 None None None example_heap] by simp
  have b: "MazeGenerator 5 2 None None None example_heap
      = Inl (ValueError ''Maze dimensions must be at least 3x3'')"
    using constructor_validation[of 5 2 None None None example_heap] by simp
  have r: "room_count 5 7 \<le> 6" by (simp add: room_count_examples)
  obtain hp1 self where c: "MazeGenerator 5 7 None None None example_heap = Inr (hp1, self)"
    by (simp add: MazeGenerator_def appearance_or_def CubeAppearance_def new_list_def)
  from constructor_validation[of 5 7 None None None example_heap] c
  have d: "width self = 5 \<and> height self = 7 \<and>
         (\<forall>frames seeded seed g hp2.
            (generate frames seeded seed g hp2 self = Inl RecursionError
               \<or> (\<exists>r. generate frames seeded seed g hp2 self = Inr r))
            \<and> (\<forall>msg. generate frames seeded seed g hp2 self \<noteq> Inl (ValueError msg))
            \<and> (room_count 5 7 \<le> frames \<longrightarrow>
                 (\<exists>r. generate frames seeded seed g hp2 self = Inr r)))"
    by blast
  from d have d1: "width self = 5" "height self = 7" by simp_all
  from d have "(\<forall>msg. generate 6 example_seeded (Some 1) zero_rng hp1 self \<noteq> Inl (ValueError msg))
            \<and> (room_count 5 7 \<le> 6 \<longrightarrow>
                 (\<exists>r. generate 6 example_seeded (Some 1) zero_rng hp1 self = Inr r))"
    by blast
  with r have d2: "\<exists>r. generate 6 example_seeded (Some 1) zero_rng hp1 self = Inr r"
    "\<forall>msg. generate 6 example_seeded (Some 1) zero_rng hp1 self \<noteq> Inl (ValueError msg)"
    by simp_all
  from a b r c d1 d2 show ?thesis by blast
qed

text \<open>
  C6, as the code has it. The cells that the recursive carve opens as rooms have both
  coordinates odd (it starts at \<open>(1, 1)\<close> and moves by 2); every other cell it opens has
  exactly one even coordinate and lies between two open rooms. No cell with two even
  coordinates is opened. This holds of every carve that does not run out of frames, as
  when there is a frame for every room.
\<close>

theorem carve_opens_odd_rooms:
  assumes "odd w" "3 \<le> w" "odd h" "3 \<le> h"
    and "room_count w h \<le> frames \<or> carve_field frames w h g \<noteq> Inl RecursionError"
  shows "\<exists>m. carve_field frames w h g = Inr m \<and> lattice_ok odd_room (opened m)"
proof -
  have ne: "carve_path frames w h (all_walls w h, g) 1 1 \<noteq> Inl RecursionError"
  proof (cases "room_count w h \<le> frames")
    case True
    with assms(1-4) show ?thesis by (rule carve_enough)
  next
    case False
    with assms(5) have "carve_field frames w h g \<noteq> Inl RecursionError" by simp
    then show ?thesis unfolding carve_field_def by (auto simp del: carve_path.simps)
  qed
  show ?thesis
  proof (rule carve_from_walls[OF assms(2,4) ne])
    fix m1 g1
    assume c: "carve_path frames w h (all_walls w h, g) 1 1 = Inr (m1, g1)"
      and inv: "maze_inv w h (opened m1)"
    from inv have "lattice_ok odd_room (opened m1)" by (simp add: maze_inv_def)
    moreover have "carve_field frames w h g = Inr m1" unfolding carve_field_def c by simp
    ultimately show ?thesis by blast
  qed
qed

theorem carve_opens_odd_rooms_witness:
  "odd (5::int) \<and> (3::int) \<le> 5 \<and> odd (7::int) \<and> (3::int) \<le> 7 \<and> room_count 5 7 \<le> 6
   \<and> (\<exists>m. carve_field 6 5 7 zero_rng = Inr m \<and> lattice_ok odd_room (opened m))"
proof -
  have h: "odd (5::int)" "(3::int) \<le> 5" "odd (7::int)" "(3::int) \<le> 7" by simp_all
  have r: "room_count 5 7 \<le> 6" by (simp add: room_count_examples)
  show ?thesis by (intro conjI h r carve_opens_odd_rooms[OF h disjI1[OF r]])
qed

text \<open>
  The claim as the specification words it, with rooms at even coordinates, fails on the
  smallest grid: the carve of the 3 by 3 grid opens \<open>(1, 1)\<close> only.
\<close>

theorem carve_rooms_even_counterexample:
  "carve_field 900 3 3 zero_rng = Inr [[True, True, True], [True, False, True], [True, True, True]]
   \<and> \<not> lattice_ok even_room (opened [[True, True, True], [True, False, True], [True, True, True]])"
proof
  have "carve_path 900 3 3 (all_walls 3 3, zero_rng) 1 1
     = Inr ([[True, True, True], [True, False, True], [True, True, True]],
            snd (shuffle zero_rng directions))"
    by (rule carve_3x3) simp
  then show "carve_field 900 3 3 zero_rng = Inr [[True, True, True], [True, False, True], [True, True, True]]"
    unfolding carve_field_def by simp
  show "\<not> lattice_ok even_room (opened [[True, True, True], [True, False, True], [True, True, True]])"
    unfolding opened_3x3_carved lattice_ok_def even_room_def by simp
qed

text \<open>
  C7. For width and height 3 and every seed, with room for one activation of
  \<open>_carve_path\<close>, the generated wall field has exactly the open cells \<open>(1, 0)\<close>,
  \<open>(1, 1)\<close>, \<open>(1, 2)\<close>, the solution path is the list of these three, and \<open>(1, 1)\<close> is the
  only interior cell.
\<close>

theorem minimal_maze_3x3:
  assumes "width self = 3" "height self = 3" "0 < frames"
  shows "\<exists>g' hp' self'. generate frames seeded seed g hp self = Inr (g', hp', self')
     \<and> u_maze self' = [[True, False, True], [True, False, True], [True, False, True]]
     \<and> opened (u_maze self') = {(1, 0), (1, 1), (1, 2)}
     \<and> returned_path hp' self' = [(1, 0), (1, 1), (1, 2)]
     \<and> {(x, y). 0 < x \<and> x < width self - 1 \<and> 0 < y \<and> y < height self - 1} = {(1, 1)}"
proof -
  define g0 where "g0 = (case seed of None \<Rightarrow> g | Some s \<Rightarrow> seeded s)"
  let ?m = "[[True, False, True], [True, False, True], [True, False, True]]"
  let ?p = "[(1, 0), (1, 1), (1, 2)] :: cell list"
  have e2: "maze_set [[True, True, True], [True, False, True], [True, True, True]] 1 0 False
      = Inr [[True, False, True], [True, False, True], [True, True, True]]"
    by (simp add: maze_set_def cell_index_def py_index_def)
  have e3: "maze_set [[True, False, True], [True, False, True], [True, True, True]] 1 2 False
      = Inr ?m"
    by (simp add: maze_set_def cell_index_def py_index_def numeral_2_eq_2)
  have gen: "generate frames seeded seed g hp self
      = Inr (snd (shuffle g0 directions), snd (new_list ?p hp),
             self\<lparr>u_maze := ?m, u_solution_path := fst (new_list ?p hp)\<rparr>)"
    unfolding generate_def assms(1,2) Let_def g0_def[symmetric]
    by (simp add: carve_3x3[OF assms(3)] e2 e3 find_solution_3x3 split: prod.split
          del: carve_path.simps)
  have interior: "{(x, y). 0 < x \<and> x < width self - 1 \<and> 0 < y \<and> y < height self - 1} = {(1::int, 1::int)}"
    unfolding assms(1,2) by auto
  show ?thesis
    unfolding gen
    by (intro exI conjI, rule refl) (simp_all add: opened_3x3_final returned_path_content interior)
qed

theorem minimal_maze_3x3_witness:
  "width (example_generator 3 3) = 3 \<and> height (example_generator 3 3) = 3 \<and> (0::nat) < 900
   \<and> (\<exists>g' hp' self'. generate 900 example_seeded None zero_rng example_heap (example_generator 3 3) = Inr (g', hp', self')
     \<and> u_maze self' = [[True, False, True], [True, False, True], [True, False, True]]
     \<and> opened (u_maze self') = {(1, 0), (1, 1), (1, 2)}
     \<and> returned_path hp' self' = [(1, 0), (1, 1), (1, 2)]
     \<and> {(x, y). 0 < x \<and> x < width (example_generator 3 3) - 1 \<and> 0 < y \<and> y < height (example_generator 3 3) - 1} = {(1, 1)})"
proof -
  have h: "width (example_generator 3 3) = 3" "height (example_generator 3 3) = 3"
    "(0::nat) < 900"
    by (simp_all add: example_generator_def)
  show ?thesis by (intro conjI h minimal_maze_3x3[OF h])
qed

text \<open>
  C8. The claim asks every accessor of the grid that takes a coordinate to raise ValueError
  on a coordinate outside the grid and to leave the grid as it is. \<open>set_cube\<close> and
  \<open>get_cube\<close> do; \<open>get_appearance\<close> performs no bounds check and returns the default
  appearance. On the 3 by 3 by 3 grid at position \<open>(5, 0, 0)\<close>:
\<close>

theorem get_appearance_unchecked:
  "CubeGrid example_np_zeros (3, 3, 3) = Inr example_grid
   \<and> \<not> is_valid_position example_grid (5, 0, 0)
   \<and> set_cube example_grid (5, 0, 0) True None
        = (Inl (ValueError ''Position (5, 0, 0) is outside grid bounds (3, 3, 3)''), example_grid)
   \<and> get_cube example_grid (5, 0, 0)
        = (Inl (ValueError ''Position (5, 0, 0) is outside grid bounds (3, 3, 3)''), example_grid)
   \<and> get_appearance example_grid (5, 0, 0)
        = (Inr \<lparr>color = (0.5, 0.5, 0.5), alpha = 1, material = ''default''\<rparr>, example_grid)"
proof (intro conjI)
  show "CubeGrid example_np_zeros (3, 3, 3) = Inr example_grid"
    by (simp add: CubeGrid_def CubeAppearance_def example_grid_def example_np_zeros_def)
  show v: "\<not> is_valid_position example_grid (5, 0, 0)"
    by (simp add: is_valid_position_def example_grid_def)
  have m: "bounds_error example_grid (5, 0, 0)
      = ValueError ''Position (5, 0, 0) is outside grid bounds (3, 3, 3)''"
    by (simp add: bounds_error_def str_position_def str_small example_grid_def)
  show "set_cube example_grid (5, 0, 0) True None
        = (Inl (ValueError ''Position (5, 0, 0) is outside grid bounds (3, 3, 3)''), example_grid)"
    using v m by (simp add: set_cube_def)
  show "get_cube example_grid (5, 0, 0)
        = (Inl (ValueError ''Position (5, 0, 0) is outside grid bounds (3, 3, 3)''), example_grid)"
    using v m by (simp add: get_cube_def)
  show "get_appearance example_grid (5, 0, 0)
        = (Inr \<lparr>color = (0.5, 0.5, 0.5), alpha = 1, material = ''default''\<rparr>, example_grid)"
    by (simp add: get_appearance_def example_grid_def)
qed

text \<open>
  C9. \<open>get_solution_path\<close> returns a new list object on each call: two calls return lists
  with equal contents at two addresses, both different from the address of the stored
  path; whatever a caller then writes into the first list, the stored path, the second
  list and the result of a later call keep the contents of the stored path; and
  \<open>get_solution_path\<close>, \<open>to_cube_grid\<close> and \<open>print_maze\<close> leave the object (its wall
  field among its fields) and the stored path as they were.
\<close>

theorem solution_path_copy_isolated:
  assumes alloc: "u_solution_path self < next_addr hp"
    and c1: "get_solution_path hp self = (a1, hp1, self1)"
    and c2: "get_solution_path hp1 self1 = (a2, hp2, self2)"
  shows "list_at hp2 a1 = list_at hp (u_solution_path self)
       \<and> list_at hp2 a2 = list_at hp (u_solution_path self)
       \<and> a1 \<noteq> a2 \<and> a1 \<noteq> u_solution_path self \<and> a2 \<noteq> u_solution_path self
       \<and> self1 = self \<and> self2 = self
       \<and> list_at hp2 (u_solution_path self) = list_at hp (u_solution_path self)
       \<and> list_at (mutate_list a1 xs hp2) (u_solution_path self) = list_at hp (u_solution_path self)
       \<and> list_at (mutate_list a1 xs hp2) a2 = list_at hp (u_solution_path self)
       \<and> returned_path (mutate_list a1 xs hp2) self = list_at hp (u_solution_path self)
       \<and> snd (to_cube_grid np_zeros hp self include_solution) = (hp, self)
       \<and> snd (print_maze hp self show_solution) = (hp, self)"
proof -
  from c1 have 1: "a1 = next_addr hp" "self1 = self"
    "hp1 = \<lparr>list_at = (list_at hp)(next_addr hp := list_at hp (u_solution_path self)),
            next_addr = Suc (next_addr hp)\<rparr>"
    by (auto simp: get_solution_path_def new_list_def)
  from c2 have 2: "a2 = next_addr hp1" "self2 = self1"
    "hp2 = \<lparr>list_at = (list_at hp1)(next_addr hp1 := list_at hp1 (u_solution_path self1)),
            next_addr = Suc (next_addr hp1)\<rparr>"
    by (auto simp: get_solution_path_def new_list_def)
  have t: "snd (to_cube_grid np_zeros hp self include_solution) = (hp, self)"
    by (simp add: to_cube_grid_def Let_def split: sum.split)
  have p: "snd (print_maze hp self show_solution) = (hp, self)"
    by (simp add: print_maze_def Let_def)
  show ?thesis
    using alloc t p unfolding 1 2
    by (simp add: mutate_list_def returned_path_content)
qed

theorem solution_path_copy_isolated_witness:
  "u_solution_path (example_generator 3 3) < next_addr (snd (new_list [(1, 0), (1, 1), (1, 2)] example_heap))
   \<and> (\<exists>a1 hp1 self1 a2 hp2 self2.
         get_solution_path (snd (new_list [(1, 0), (1, 1), (1, 2)] example_heap)) (example_generator 3 3) = (a1, hp1, self1)
       \<and> get_solution_path hp1 self1 = (a2, hp2, self2)
       \<and> list_at hp2 a1 = list_at (snd (new_list [(1, 0), (1, 1), (1, 2)] example_heap)) (u_solution_path (example_generator 3 3))
       \<and> list_at hp2 a2 = list_at (snd (new_list [(1, 0), (1, 1), (1, 2)] example_heap)) (u_solution_path (example_generator 3 3))
       \<and> a1 \<noteq> a2 \<and> a1 \<noteq> u_solution_path (example_generator 3 3) \<and> a2 \<noteq> u_solution_path (example_generator 3 3)
       \<and> self1 = (example_generator 3 3) \<and> self2 = (example_generator 3 3)
       \<and> list_at hp2 (u_solution_path (example_generator 3 3)) = list_at (snd (new_list [(1, 0), (1, 1), (1, 2)] example_heap)) (u_solution_path (example_generator 3 3))
       \<and> list_at (mutate_list a1 [(9, 9)] hp2) (u_solution_path (example_generator 3 3)) = list_at (snd (new_list [(1, 0), (1, 1), (1, 2)] example_heap)) (u_solution_path (example_generator 3 3))
       \<and> list_at (mutate_list a1 [(9, 9)] hp2) a2 = list_at (snd (new_list [(1, 0), (1, 1), (1, 2)] example_heap)) (u_solution_path (example_generator 3 3))
       \<and> returned_path (mutate_list a1 [(9, 9)] hp2) (example_generator 3 3) = list_at (snd (new_list [(1, 0), (1, 1), (1, 2)] example_heap)) (u_solution_path (example_generator 3 3))
       \<and> snd (to_cube_grid example_np_zeros (snd (new_list [(1, 0), (1, 1), (1, 2)] example_heap)) (example_generator 3 3) True) = ((snd (new_list [(1, 0), (1, 1), (1, 2)] example_heap)), (example_generator 3 3))
       \<and> snd (print_maze (snd (new_list [(1, 0), (1, 1), (1, 2)] example_heap)) (example_generator 3 3) True) = ((snd (new_list [(1, 0), (1, 1), (1, 2)] example_heap)), (example_generator 3 3)))"
proof -
  let ?hp = "(snd (new_list [(1, 0), (1, 1), (1, 2)] example_heap))"
  let ?self = "(example_generator 3 3)"
  have h: "u_solution_path ?self < next_addr ?hp"
    by (simp add: example_generator_def example_heap_def new_list_def)
  obtain a1 hp1 self1 where c1: "get_solution_path ?hp ?self = (a1, hp1, self1)"
    by (cases "get_solution_path ?hp ?self")
  obtain a2 hp2 self2 where c2: "get_solution_path hp1 self1 = (a2, hp2, self2)"
    by (cases "get_solution_path hp1 self1")
  from solution_path_copy_isolated[OF h c1 c2, of "[(9, 9)]" example_np_zeros True True] h c1 c2
  show ?thesis by blast
qed

text \<open>
  C10. On a generator that was constructed and on which \<open>generate\<close> has not been called,
  \<open>get_solution_path\<close> returns a list whose contents are the empty list.
\<close>

theorem solution_path_empty_before_generate:
  "MazeGenerator w h wa pa sa hp = Inr (hp1, self) \<Longrightarrow>
   get_solution_path hp1 self = (a, hp2, self2) \<Longrightarrow> list_at hp2 a = []"
  by (auto simp: MazeGenerator_def get_solution_path_def new_list_def
           split: if_splits sum.splits)

theorem solution_path_empty_before_generate_witness:
  "\<exists>hp1 self a hp2 self2.
     MazeGenerator 5 7 None None None \<lparr>list_at = (\<lambda>_. []), next_addr = 0\<rparr> = Inr (hp1, self)
     \<and> get_solution_path hp1 self = (a, hp2, self2) \<and> list_at hp2 a = []"
proof -
  obtain hp1 self where
    c: "MazeGenerator 5 7 None None None \<lparr>list_at = (\<lambda>_. []), next_addr = 0\<rparr> = Inr (hp1, self)"
    by (simp add: MazeGenerator_def appearance_or_def CubeAppearance_def new_list_def)
  obtain a hp2 self2 where g: "get_solution_path hp1 self = (a, hp2, self2)"
    by (cases "get_solution_path hp1 self")
  from solution_path_empty_before_generate[OF c g] c g show ?thesis by blast
qed

end
